theory Spec2Isabelle
  imports Complex_Main
begin

section \<open>Python strings\<close>

text \<open>
  A Python \<open>str\<close> is a sequence of Unicode code points; it is modelled as a list of
  natural numbers. ASCII literals are written with \<open>ustr\<close>.
\<close>

type_synonym ustr = "nat list"

definition ustr :: "string \<Rightarrow> ustr" where
  "ustr s = map of_char s"

text \<open>
  \<open>str.isspace\<close> on one code point, which is also the class \<open>\s\<close> of \<open>re\<close> on
  \<open>str\<close> patterns and the set that \<open>str.strip()\<close> removes.
\<close>

definition py_isspace :: "nat \<Rightarrow> bool" where
  "py_isspace c \<longleftrightarrow>
     (9 \<le> c \<and> c \<le> 13) \<or> (28 \<le> c \<and> c \<le> 32) \<or> c = 133 \<or> c = 160 \<or> c = 5760 \<or>
     (8192 \<le> c \<and> c \<le> 8202) \<or> c = 8232 \<or> c = 8233 \<or> c = 8239 \<or> c = 8287 \<or> c = 12288"

definition py_lstrip :: "ustr \<Rightarrow> ustr" where
  "py_lstrip s = dropWhile py_isspace s"

definition py_rstrip :: "ustr \<Rightarrow> ustr" where
  "py_rstrip s = rev (dropWhile py_isspace (rev s))"

definition py_strip :: "ustr \<Rightarrow> ustr" where
  "py_strip s = py_rstrip (py_lstrip s)"

text \<open>\<open>s.replace(a, b)\<close> for single characters \<open>a\<close> and \<open>b\<close>.\<close>

definition replace_char :: "nat \<Rightarrow> nat \<Rightarrow> ustr \<Rightarrow> ustr" where
  "replace_char a b s = map (\<lambda>c. if c = a then b else c) s"

text \<open>\<open>s.replace(a, '')\<close> for a single character \<open>a\<close>.\<close>

definition remove_char :: "nat \<Rightarrow> ustr \<Rightarrow> ustr" where
  "remove_char a s = filter (\<lambda>c. c \<noteq> a) s"

section \<open>Document segmenter (\<open>regularize_file.py\<close>)\<close>

subsection \<open>\<open>detect_invoice_page_groups\<close>\<close>

text \<open>
  The three compiled identifier patterns are applied by the regular expression engine,
  which is outside this development. A pattern is represented by its search function:
  \<open>pat text\<close> is \<open>Some g\<close> when \<open>pat.search(text)\<close> matches with \<open>group(1) = g\<close>, and
  \<open>None\<close> when it does not match. A page is represented by the value of
  \<open>page.extract_text()\<close>, which may be \<open>None\<close>.
\<close>

type_synonym pattern_search = "ustr \<Rightarrow> ustr option"

text \<open>The inner loop \<open>for pat in patterns\<close>: the first pattern that matches wins.\<close>

fun first_capture :: "pattern_search list \<Rightarrow> ustr \<Rightarrow> ustr option" where
  "first_capture [] text = None"
| "first_capture (pat # pats) text =
     (case pat text of
        Some g \<Rightarrow> Some (py_strip g)
      | None \<Rightarrow> first_capture pats text)"

definition page_found_id :: "pattern_search list \<Rightarrow> ustr option \<Rightarrow> ustr option" where
  "page_found_id patterns page =
     (let text = (case page of None \<Rightarrow> [] | Some t \<Rightarrow> t);
          text = py_strip (replace_char 10 32 text)
      in first_capture patterns text)"

record seg_state =
  grouped_invoices :: "nat list list"
  current_group :: "nat list"
  current_tracking_id :: "ustr option"

definition seg_init :: seg_state where
  "seg_init = \<lparr>grouped_invoices = [], current_group = [], current_tracking_id = None\<rparr>"

text \<open>The decision logic of one loop iteration, for page number \<open>i\<close> with \<open>found_id\<close>.\<close>

definition page_step :: "seg_state \<Rightarrow> nat \<Rightarrow> ustr option \<Rightarrow> seg_state" where
  "page_step s i found_id =
     (if i = 1 then
        s\<lparr>current_tracking_id := found_id, current_group := current_group s @ [i]\<rparr>
      else if found_id = None then
        s\<lparr>current_group := current_group s @ [i]\<rparr>
      else if found_id = current_tracking_id s then
        s\<lparr>current_group := current_group s @ [i]\<rparr>
      else
        s\<lparr>grouped_invoices :=
             (if current_group s \<noteq> [] then grouped_invoices s @ [current_group s]
              else grouped_invoices s),
          current_group := [i],
          current_tracking_id := found_id\<rparr>)"

text \<open>The loop \<open>for i, page in enumerate(reader.pages, start=1)\<close>, from page number \<open>i\<close>.\<close>

fun scan_pages :: "pattern_search list \<Rightarrow> seg_state \<Rightarrow> nat \<Rightarrow> ustr option list \<Rightarrow> seg_state" where
  "scan_pages patterns s i [] = s"
| "scan_pages patterns s i (page # pages) =
     scan_pages patterns (page_step s i (page_found_id patterns page)) (Suc i) pages"

text \<open>The final cleanup: the group still being built is appended if it is not empty.\<close>

definition close_groups :: "seg_state \<Rightarrow> nat list list" where
  "close_groups s =
     (if current_group s \<noteq> [] then grouped_invoices s @ [current_group s]
      else grouped_invoices s)"

definition detect_invoice_page_groups :: "pattern_search list \<Rightarrow> ustr option list \<Rightarrow> nat list list" where
  "detect_invoice_page_groups patterns pages = close_groups (scan_pages patterns seg_init 1 pages)"

text \<open>
  The check of \<open>process_multi_page_pdf\<close> on one group:
  \<open>grp[i+1] == grp[i] + 1\<close> for every \<open>i\<close> in \<open>range(len(grp) - 1)\<close>.
\<close>

fun consecutive :: "nat list \<Rightarrow> bool" where
  "consecutive [] = True"
| "consecutive [x] = True"
| "consecutive (x # y # ys) = (y = x + 1 \<and> consecutive (y # ys))"

text \<open>
  The tracking id held by the segmenter after it has read \<open>pages\<close>, and the invariant
  of its loop before page number \<open>i\<close> is read.
\<close>

definition tracking_id_after :: "pattern_search list \<Rightarrow> ustr option list \<Rightarrow> ustr option" where
  "tracking_id_after pats pages = current_tracking_id (scan_pages pats seg_init 1 pages)"

definition seg_inv :: "seg_state \<Rightarrow> nat \<Rightarrow> bool" where
  "seg_inv s i \<longleftrightarrow>
     concat (grouped_invoices s) @ current_group s = [1..<i] \<and>
     (\<forall>g \<in> set (grouped_invoices s). g \<noteq> [] \<and> consecutive g) \<and>
     consecutive (current_group s) \<and>
     (1 < i \<longrightarrow> current_group s \<noteq> [])"

section \<open>Values exchanged with the language model and the registry\<close>

text \<open>
  The result of \<open>json.loads\<close>. A Python \<open>dict\<close> with string keys is an association list;
  \<open>d.get(k)\<close> is \<open>map_of d k\<close> and \<open>d.keys()\<close> is \<open>map fst d\<close>.
\<close>

datatype json =
    JNull
  | JBool bool
  | JNum rat
  | JStr ustr
  | JArr "json list"
  | JObj "(ustr \<times> json) list"

text \<open>The prompts sent to the model, without their fixed wording.\<close>

datatype prompt = Phase1Prompt ustr | Phase2Prompt ustr json

text \<open>Truth value of a Python object, for the values that JSON can hold.\<close>

definition py_truthy :: "json \<Rightarrow> bool" where
  "py_truthy j =
     (case j of
        JNull \<Rightarrow> False
      | JBool b \<Rightarrow> b
      | JNum q \<Rightarrow> q \<noteq> 0
      | JStr s \<Rightarrow> s \<noteq> []
      | JArr l \<Rightarrow> l \<noteq> []
      | JObj d \<Rightarrow> d \<noteq> [])"

section \<open>Record normalizer (\<open>build_dataframe.py\<close>)\<close>

subsection \<open>The built-in \<open>float\<close> on strings\<close>

text \<open>
  A Python float is represented by the number its literal denotes: \<open>Finite q\<close> stands
  for the double that is nearest to the rational \<open>q\<close> (the rounding is done by the
  interpreter, in the same way for \<open>float("1234.56")\<close> and for the literal \<open>1234.56\<close>).
  \<open>py_float\<close> follows the grammar of \<open>float(str)\<close>: surrounding whitespace is
  ignored, then an optional sign, then \<open>inf\<close>, \<open>infinity\<close> or \<open>nan\<close> in any case, or a
  decimal number with an optional exponent, where single underscores may stand between
  digits. \<open>None\<close> stands for \<open>ValueError\<close>. Digits are the ASCII digits; the other
  decimal digits of Unicode, which \<open>float\<close> also accepts, are not covered.
\<close>

datatype pyfloat = Finite rat | Inf bool | NaN

definition is_digit :: "nat \<Rightarrow> bool" where
  "is_digit c \<longleftrightarrow> 48 \<le> c \<and> c \<le> 57"

definition digit_val :: "nat \<Rightarrow> nat" where
  "digit_val c = c - 48"

text \<open>The value of a list of decimal digits, most significant first.\<close>

definition dec :: "nat list \<Rightarrow> nat" where
  "dec ds = foldl (\<lambda>acc d. 10 * acc + d) 0 ds"

text \<open>
  The rest of a digit part after its first digit: digits, each possibly preceded by one
  underscore. Returns the digit values read and the remaining input.
\<close>

fun digitpart_tail :: "ustr \<Rightarrow> nat list \<times> ustr" where
  "digitpart_tail [] = ([], [])"
| "digitpart_tail [c] = (if is_digit c then ([digit_val c], []) else ([], [c]))"
| "digitpart_tail (c # d # cs) =
     (if is_digit c then
        (case digitpart_tail (d # cs) of (ds, r) \<Rightarrow> (digit_val c # ds, r))
      else if c = 95 \<and> is_digit d then
        (case digitpart_tail cs of (ds, r) \<Rightarrow> (digit_val d # ds, r))
      else ([], c # d # cs))"

definition digitpart :: "ustr \<Rightarrow> (nat list \<times> ustr) option" where
  "digitpart s =
     (case s of
        [] \<Rightarrow> None
      | c # cs \<Rightarrow>
          if is_digit c then
            (case digitpart_tail cs of (ds, r) \<Rightarrow> Some (digit_val c # ds, r))
          else None)"

text \<open>
  \<open>number ::= [digitpart] "." digitpart | digitpart ["."]\<close>: the digits before the
  point, the digits after it, and the remaining input.
\<close>

definition parse_number :: "ustr \<Rightarrow> (nat list \<times> nat list \<times> ustr) option" where
  "parse_number s =
     (case digitpart s of
        Some (ip, r) \<Rightarrow>
          (case r of
             [] \<Rightarrow> Some (ip, [], [])
           | c # r' \<Rightarrow>
               if c = 46 then
                 (case digitpart r' of
                    Some (fp, r'') \<Rightarrow> Some (ip, fp, r'')
                  | None \<Rightarrow> Some (ip, [], r'))
               else Some (ip, [], r))
      | None \<Rightarrow>
          (case s of
             [] \<Rightarrow> None
           | c # r' \<Rightarrow>
               if c = 46 then
                 (case digitpart r' of
                    Some (fp, r'') \<Rightarrow> Some ([], fp, r'')
                  | None \<Rightarrow> None)
               else None))"

text \<open>
  \<open>exponent ::= ("e" | "E") [sign] digitpart\<close>, which must reach the end of the
  input; an empty input is the exponent 0.
\<close>

definition parse_exponent :: "ustr \<Rightarrow> int option" where
  "parse_exponent s =
     (case s of
        [] \<Rightarrow> Some 0
      | c # r \<Rightarrow>
          if c = 101 \<or> c = 69 then
            (let (neg, r') =
               (case r of
                  [] \<Rightarrow> (False, r)
                | sg # t \<Rightarrow> if sg = 45 then (True, t) else if sg = 43 then (False, t) else (False, r))
             in case digitpart r' of
                  Some (ds, []) \<Rightarrow> Some (if neg then - int (dec ds) else int (dec ds))
                | _ \<Rightarrow> None)
          else None)"

definition scale10 :: "rat \<Rightarrow> int \<Rightarrow> rat" where
  "scale10 q e = (if 0 \<le> e then q * 10 ^ nat e else q / 10 ^ nat (- e))"

definition ascii_lower :: "nat \<Rightarrow> nat" where
  "ascii_lower c = (if 65 \<le> c \<and> c \<le> 90 then c + 32 else c)"

text \<open>The unsigned part of a float string.\<close>

definition parse_abs_float :: "ustr \<Rightarrow> pyfloat option" where
  "parse_abs_float s =
     (let l = map ascii_lower s in
      if l = ustr ''inf'' \<or> l = ustr ''infinity'' then Some (Inf True)
      else if l = ustr ''nan'' then Some NaN
      else
        (case parse_number s of
           None \<Rightarrow> None
         | Some (ip, fp, r) \<Rightarrow>
             (case parse_exponent r of
                None \<Rightarrow> None
              | Some e \<Rightarrow>
                  Some (Finite (scale10 (of_nat (dec ip) + of_nat (dec fp) / 10 ^ length fp) e)))))"

definition negate :: "pyfloat \<Rightarrow> pyfloat" where
  "negate x = (case x of Finite q \<Rightarrow> Finite (- q) | Inf b \<Rightarrow> Inf (\<not> b) | NaN \<Rightarrow> NaN)"

definition py_float :: "ustr \<Rightarrow> pyfloat option" where
  "py_float s =
     (case py_strip s of
        [] \<Rightarrow> None
      | c # r \<Rightarrow>
          if c = 45 then map_option negate (parse_abs_float r)
          else if c = 43 then parse_abs_float r
          else parse_abs_float (c # r))"

subsection \<open>\<open>_clean_quantity\<close> and \<open>_parse_currency_amount\<close>\<close>

definition clean_quantity :: "ustr option \<Rightarrow> pyfloat" where
  "clean_quantity val =
     (case val of
        None \<Rightarrow> Finite 0
      | Some v \<Rightarrow>
          (case py_float (py_strip (remove_char 44 v)) of
             Some x \<Rightarrow> x
           | None \<Rightarrow> Finite 0))"

text \<open>
  The character class \<open>[\<euro>$\<pounds>\<yen>\s]\<close> of the clean-up step: the euro sign (U+20AC),
  the dollar sign, the pound sign (U+00A3), the yen sign (U+00A5) and whitespace.
\<close>

definition is_currency_or_space :: "nat \<Rightarrow> bool" where
  "is_currency_or_space c \<longleftrightarrow> c = 8364 \<or> c = 36 \<or> c = 163 \<or> c = 165 \<or> py_isspace c"

text \<open>
  \<open>cleaned.rfind(c)\<close> for a single character, \<open>-1\<close> when it does not occur; and the
  part after the last \<open>c\<close>, which is \<open>parts[1]\<close> of \<open>cleaned.rsplit(c, 1)\<close> when \<open>c\<close>
  occurs.
\<close>

definition rfind :: "nat \<Rightarrow> ustr \<Rightarrow> int" where
  "rfind c s =
     (if c \<in> set s then int (length s) - 1 - int (length (takeWhile (\<lambda>x. x \<noteq> c) (rev s)))
      else - 1)"

definition after_last :: "nat \<Rightarrow> ustr \<Rightarrow> ustr" where
  "after_last c s = rev (takeWhile (\<lambda>x. x \<noteq> c) (rev s))"

text \<open>The clean-up step \<open>re.sub(r'[\<euro>$\<pounds>\<yen>\s]', '', str(amount_str))\<close>.\<close>

definition strip_currency :: "ustr \<Rightarrow> ustr" where
  "strip_currency a = filter (\<lambda>c. \<not> is_currency_or_space c) a"

definition parse_currency_amount :: "ustr option \<Rightarrow> pyfloat option" where
  "parse_currency_amount amount_str =
     (case amount_str of
        None \<Rightarrow> None
      | Some a \<Rightarrow>
          if a = [] then None
          else
            (let cleaned = strip_currency a;
                 cleaned =
                   (if 44 \<in> set cleaned \<and> 46 \<in> set cleaned then
                      (if rfind 44 cleaned > rfind 46 cleaned then
                         replace_char 44 46 (remove_char 46 cleaned)
                       else remove_char 44 cleaned)
                    else if 44 \<in> set cleaned then
                      (if length (after_last 44 cleaned) = 2 then replace_char 44 46 cleaned
                       else remove_char 44 cleaned)
                    else cleaned)
             in py_float cleaned))"

subsection \<open>\<open>_build_line_items_records\<close>\<close>

text \<open>
  A raw line item is the dictionary built by \<open>apply_regex_extraction\<close>: five keys, each
  holding a string or \<open>None\<close>. On such an item \<open>isinstance(item, dict)\<close> holds, and
  \<open>isinstance(description, str)\<close> fails exactly when the description is \<open>None\<close>.
\<close>

record raw_item =
  raw_quantity :: "ustr option"
  raw_description :: "ustr option"
  raw_unit :: "ustr option"
  raw_unit_price :: "ustr option"
  raw_line_total :: "ustr option"

record line_item =
  li_vendor_name :: "json option"
  li_category :: ustr
  li_quantity :: pyfloat
  li_unit :: "ustr option"
  li_description :: ustr
  li_unit_price :: "pyfloat option"
  li_line_total :: "pyfloat option"
  li_line_number :: nat

datatype error =
    ValueError string
  | Phase1ParseError
  | Phase1ValidationError string
  | Phase2ParseError
  | Phase2ValidationError string
  | CollaboratorError string
  | IndexError
  | OSError string

text \<open>
  The loop \<open>for idx, item in enumerate(extracted_li_data)\<close>, from index \<open>idx\<close>, with the
  records appended so far in \<open>line_items\<close>. \<open>vendor_name\<close> is the value of that key in the
  vendor context, \<open>None\<close> included. The categorization collaborator is the
  parameter \<open>get_line_item_category\<close>; \<open>None\<close> from it raises \<open>ValueError\<close>.
\<close>

fun build_items_loop ::
  "(ustr \<Rightarrow> ustr option) \<Rightarrow> json option \<Rightarrow> nat \<Rightarrow> raw_item list \<Rightarrow> line_item list \<Rightarrow>
   error + line_item list" where
  "build_items_loop get_line_item_category vendor_name idx [] line_items = Inr line_items"
| "build_items_loop get_line_item_category vendor_name idx (item # items) line_items =
     (case raw_description item of
        None \<Rightarrow> build_items_loop get_line_item_category vendor_name (Suc idx) items line_items
      | Some d \<Rightarrow>
          (let description = py_strip d in
           if description = [] then
             build_items_loop get_line_item_category vendor_name (Suc idx) items line_items
           else
             (let quantity = clean_quantity (raw_quantity item);
                  unit_val = raw_unit item;
                  unit_price = parse_currency_amount (raw_unit_price item);
                  line_total = parse_currency_amount (raw_line_total item)
              in case get_line_item_category description of
                   None \<Rightarrow> Inl (ValueError ''Could not determine category'')
                 | Some category \<Rightarrow>
                     build_items_loop get_line_item_category vendor_name (Suc idx) items
                       (line_items @
                        [\<lparr>li_vendor_name = vendor_name, li_category = category,
                          li_quantity = quantity, li_unit = unit_val,
                          li_description = description, li_unit_price = unit_price,
                          li_line_total = line_total, li_line_number = idx + 1\<rparr>]))))"

definition build_line_items_records ::
  "(ustr \<Rightarrow> ustr option) \<Rightarrow> json option \<Rightarrow> raw_item list \<Rightarrow> error + line_item list" where
  "build_line_items_records get_line_item_category vendor_name extracted_li_data =
     build_items_loop get_line_item_category vendor_name 0 extracted_li_data []"

section \<open>Vendor resolver (\<open>vendor_identifier.py\<close>)\<close>

definition key_invoice_level :: ustr where "key_invoice_level = ustr ''invoice_level''"
definition key_line_item_level :: ustr where "key_line_item_level = ustr ''line_item_level''"
definition key_invoice_number :: ustr where "key_invoice_number = ustr ''invoice_number''"
definition key_invoice_date :: ustr where "key_invoice_date = ustr ''invoice_date''"
definition key_invoice_total_amount :: ustr where
  "key_invoice_total_amount = ustr ''invoice_total_amount''"
definition key_order_date :: ustr where "key_order_date = ustr ''order_date''"
definition key_line_item_block_start :: ustr where
  "key_line_item_block_start = ustr ''line_item_block_start''"
definition key_line_item_block_end :: ustr where
  "key_line_item_block_end = ustr ''line_item_block_end''"
definition key_description :: ustr where "key_description = ustr ''description''"
definition key_quantity :: ustr where "key_quantity = ustr ''quantity''"
definition key_unit :: ustr where "key_unit = ustr ''unit''"
definition key_unit_price :: ustr where "key_unit_price = ustr ''unit_price''"
definition key_line_total :: ustr where "key_line_total = ustr ''line_total''"

subsection \<open>\<open>_count_capture_groups\<close>\<close>

text \<open>
  The number of matches of \<open>(?<!\\)\((?!\?:)\<close>: an opening parenthesis that is not
  preceded by a backslash and not followed by \<open>?:\<close>. \<open>prev\<close> is the character before the
  rest of the pattern, if any.
\<close>

fun count_groups_from :: "nat option \<Rightarrow> ustr \<Rightarrow> nat" where
  "count_groups_from prev [] = 0"
| "count_groups_from prev (c # cs) =
     (if c = 40 \<and> prev \<noteq> Some 92 \<and> take 2 cs \<noteq> [63, 58] then 1 else 0) +
     count_groups_from (Some c) cs"

definition count_capture_groups :: "ustr \<Rightarrow> nat" where
  "count_capture_groups pattern = count_groups_from None pattern"

subsection \<open>\<open>llm_phase2_generate_regex\<close>\<close>

definition required_invoice_keys :: "ustr list" where
  "required_invoice_keys =
     [key_invoice_number, key_invoice_date, key_invoice_total_amount, key_order_date]"

definition strict_invoice_fields :: "ustr list" where
  "strict_invoice_fields = [key_invoice_number, key_invoice_date, key_invoice_total_amount]"

definition required_line_item_keys :: "ustr list" where
  "required_line_item_keys =
     [key_line_item_block_start, key_line_item_block_end, key_description, key_quantity,
      key_unit, key_unit_price, key_line_total]"

definition strict_line_fields :: "ustr list" where
  "strict_line_fields =
     [key_line_item_block_start, key_line_item_block_end, key_description, key_quantity,
      key_unit_price, key_line_total]"

definition marker_fields :: "ustr list" where
  "marker_fields = [key_line_item_block_start, key_line_item_block_end]"

text \<open>
  The two loops \<open>for k in required_..._keys\<close>. They collect the keys whose value is not a
  string or is blank although strict (\<open>empties\<close>), and the keys whose non-blank pattern has
  no capture group (\<open>bad\<close>). The invoice-level loop has no marker fields. The source
  iterates over a Python set; the order only decides the order of the entries in the
  error message.
\<close>

fun check_fields ::
  "ustr list \<Rightarrow> ustr list \<Rightarrow> (ustr \<times> json) list \<Rightarrow> ustr list \<Rightarrow> ustr list \<Rightarrow> ustr list \<Rightarrow>
   ustr list \<times> ustr list" where
  "check_fields strict markers d [] empties bad = (empties, bad)"
| "check_fields strict markers d (k # ks) empties bad =
     (case map_of d k of
        Some (JStr v) \<Rightarrow>
          check_fields strict markers d ks
            (if k \<in> set strict \<and> py_strip v = [] then empties @ [k] else empties)
            (if py_strip v \<noteq> [] \<and> k \<notin> set markers \<and> count_capture_groups v < 1
             then bad @ [k] else bad)
      | _ \<Rightarrow> check_fields strict markers d ks (empties @ [k]) bad)"

text \<open>
  The checks made on the parsed answer of the model, in the order of the source: the
  block for \<open>invoice_level\<close>, the block for \<open>line_item_level\<close>, and the function body
  that runs one after the other. \<open>None\<close> from a block means that it raised nothing.
\<close>

definition check_invoice_level :: "(ustr \<times> json) list \<Rightarrow> error option" where
  "check_invoice_level invoice =
     (if \<not> set required_invoice_keys \<subseteq> set (map fst invoice) then
        Some (Phase2ValidationError ''invoice_level missing keys'')
      else
        (case check_fields strict_invoice_fields [] invoice required_invoice_keys [] [] of
           (empty_invoice_keys, bad_group_keys) \<Rightarrow>
             if empty_invoice_keys \<noteq> [] then
               Some (Phase2ValidationError
                 ''Empty/Invalid strictly required invoice_level regex values'')
             else if bad_group_keys \<noteq> [] then
               Some (Phase2ValidationError ''invoice_level regex capture-group errors'')
             else None))"

definition check_line_item_level :: "(ustr \<times> json) list \<Rightarrow> error option" where
  "check_line_item_level line_item =
     (if \<not> set required_line_item_keys \<subseteq> set (map fst line_item) then
        Some (Phase2ValidationError ''line_item_level missing keys'')
      else
        (case check_fields strict_line_fields marker_fields line_item
                required_line_item_keys [] [] of
           (empty_line_item_keys, bad_line_item_group_keys) \<Rightarrow>
             if empty_line_item_keys \<noteq> [] then
               Some (Phase2ValidationError
                 ''Empty/Invalid strictly required line_item_level regex values'')
             else if bad_line_item_group_keys \<noteq> [] then
               Some (Phase2ValidationError ''line_item_level regex capture-group errors'')
             else None))"

definition phase2_validate :: "json \<Rightarrow> error + json" where
  "phase2_validate parsed =
     (case parsed of
        JObj toplevel \<Rightarrow>
          if \<not> set [key_invoice_level, key_line_item_level] \<subseteq> set (map fst toplevel) then
            Inl (Phase2ValidationError ''Missing top-level keys'')
          else
            (case map_of toplevel key_invoice_level of
               Some (JObj invoice) \<Rightarrow>
                 (case check_invoice_level invoice of
                    Some e \<Rightarrow> Inl e
                  | None \<Rightarrow>
                      (case map_of toplevel key_line_item_level of
                         Some (JObj line_item) \<Rightarrow>
                           (case check_line_item_level line_item of
                              Some e \<Rightarrow> Inl e
                            | None \<Rightarrow> Inr parsed)
                       | _ \<Rightarrow>
                           Inl (Phase2ValidationError
                             ''line_item_level must be an object/dict.'')))
             | _ \<Rightarrow> Inl (Phase2ValidationError ''invoice_level must be an object/dict.''))
      | _ \<Rightarrow> Inl Phase2ParseError)"

text \<open>
  The language model is the parameter \<open>call_llm_api\<close>: it returns the parsed JSON value
  of the answer, or raises.
\<close>

definition llm_phase2_generate_regex ::
  "(prompt \<Rightarrow> error + json) \<Rightarrow> ustr \<Rightarrow> json \<Rightarrow> error + json" where
  "llm_phase2_generate_regex call_llm_api text phase1_json =
     (case call_llm_api (Phase2Prompt text phase1_json) of
        Inl e \<Rightarrow> Inl e
      | Inr parsed \<Rightarrow> phase2_validate parsed)"

text \<open>
  The acceptance condition of phase 2, stated per field: \<open>field_ok strict markers d k\<close>
  says that the value of \<open>k\<close> in \<open>d\<close> is a string, is not blank if \<open>k\<close> is strict, and has
  at least one capture group if it is not blank and \<open>k\<close> is not a marker.
\<close>

definition field_ok :: "ustr list \<Rightarrow> ustr list \<Rightarrow> (ustr \<times> json) list \<Rightarrow> ustr \<Rightarrow> bool" where
  "field_ok strict markers d k =
     (case map_of d k of
        Some (JStr v) \<Rightarrow>
          (k \<in> set strict \<longrightarrow> py_strip v \<noteq> []) \<and>
          (py_strip v \<noteq> [] \<and> k \<notin> set markers \<longrightarrow> 1 \<le> count_capture_groups v)
      | _ \<Rightarrow> False)"

definition get_object :: "(ustr \<times> json) list \<Rightarrow> ustr \<Rightarrow> (ustr \<times> json) list option" where
  "get_object d k = (case map_of d k of Some (JObj obj) \<Rightarrow> Some obj | _ \<Rightarrow> None)"

definition phase2_accepts :: "json \<Rightarrow> bool" where
  "phase2_accepts parsed =
     (case parsed of
        JObj toplevel \<Rightarrow>
          (case get_object toplevel key_invoice_level of
             None \<Rightarrow> False
           | Some invoice \<Rightarrow>
               (case get_object toplevel key_line_item_level of
                  None \<Rightarrow> False
                | Some line_item \<Rightarrow>
                    (\<forall>k \<in> set required_invoice_keys.
                       field_ok strict_invoice_fields [] invoice k) \<and>
                    (\<forall>k \<in> set required_line_item_keys.
                       field_ok strict_line_fields marker_fields line_item k)))
      | _ \<Rightarrow> False)"

text \<open>
  The condition of claim C4, in its own words: a validation error is raised exactly when
  a level object is missing or is not an object, a required key is missing, one of the
  three mandatory invoice-level fields or one of the mandatory line-item fields (all
  except the two block markers) is a blank string, or a non-empty non-marker pattern has
  no capture group.
\<close>

definition blank_string :: "(ustr \<times> json) list \<Rightarrow> ustr \<Rightarrow> bool" where
  "blank_string d k = (case map_of d k of Some (JStr v) \<Rightarrow> py_strip v = [] | _ \<Rightarrow> False)"

definition groupless_pattern :: "(ustr \<times> json) list \<Rightarrow> ustr \<Rightarrow> bool" where
  "groupless_pattern d k =
     (case map_of d k of
        Some (JStr v) \<Rightarrow> py_strip v \<noteq> [] \<and> count_capture_groups v = 0
      | _ \<Rightarrow> False)"

definition claimed_phase2_rejects :: "json \<Rightarrow> bool" where
  "claimed_phase2_rejects parsed =
     (case parsed of
        JObj toplevel \<Rightarrow>
          (case get_object toplevel key_invoice_level of
             None \<Rightarrow> True
           | Some invoice \<Rightarrow>
               (case get_object toplevel key_line_item_level of
                  None \<Rightarrow> True
                | Some line_item \<Rightarrow>
                    list_ex (\<lambda>k. map_of invoice k = None) required_invoice_keys \<or>
                    list_ex (\<lambda>k. map_of line_item k = None) required_line_item_keys \<or>
                    list_ex (blank_string invoice) strict_invoice_fields \<or>
                    list_ex (blank_string line_item)
                      (filter (\<lambda>k. k \<notin> set marker_fields) required_line_item_keys) \<or>
                    list_ex (groupless_pattern invoice) required_invoice_keys \<or>
                    list_ex (groupless_pattern line_item)
                      (filter (\<lambda>k. k \<notin> set marker_fields) required_line_item_keys)))
      | _ \<Rightarrow> True)"

text \<open>
  A template as the model may answer it, with three of its values left open: the
  \<open>order_date\<close> pattern, the start marker and the \<open>unit\<close> pattern.
\<close>

definition sample_template :: "json \<Rightarrow> json \<Rightarrow> json \<Rightarrow> json" where
  "sample_template order_date block_start unit_pattern =
     JObj [(key_invoice_level,
            JObj [(key_invoice_number, JStr (ustr ''Invoice No: ([0-9]+)'')),
                  (key_invoice_date, JStr (ustr ''Date: ([0-9/]+)'')),
                  (key_invoice_total_amount, JStr (ustr ''Total: ([0-9.]+)'')),
                  (key_order_date, order_date)]),
           (key_line_item_level,
            JObj [(key_line_item_block_start, block_start),
                  (key_line_item_block_end, JStr (ustr ''Subtotal'')),
                  (key_description, JStr (ustr ''^([A-Za-z ]+)'')),
                  (key_quantity, JStr (ustr '' ([0-9]+) '')),
                  (key_unit, unit_pattern),
                  (key_unit_price, JStr (ustr ''([0-9]+.[0-9][0-9]) '')),
                  (key_line_total, JStr (ustr ''(([0-9]+).([0-9][0-9]))$''))])]"

subsection \<open>\<open>llm_phase1_extract\<close>\<close>

definition key_invoice_details :: ustr where "key_invoice_details = ustr ''invoice_details''"
definition key_line_items :: ustr where "key_line_items = ustr ''line_items''"
definition key_vendor_master_data :: ustr where
  "key_vendor_master_data = ustr ''vendor_master_data''"
definition key_vendor_name :: ustr where "key_vendor_name = ustr ''vendor_name''"
definition key_vendor_email_id :: ustr where "key_vendor_email_id = ustr ''vendor_email_id''"
definition key_vendor_phone_number :: ustr where
  "key_vendor_phone_number = ustr ''vendor_phone_number''"
definition key_vendor_physical_address :: ustr where
  "key_vendor_physical_address = ustr ''vendor_physical_address''"
definition key_vendor_website :: ustr where "key_vendor_website = ustr ''vendor_website''"

text \<open>
  \<open>_coerce_none_values\<close>: a string that is \<open>"None"\<close>, \<open>"null"\<close> or empty once stripped
  becomes \<open>None\<close>, inside dictionaries and lists as well.
\<close>

primrec coerce_none_values :: "json \<Rightarrow> json" where
  "coerce_none_values JNull = JNull"
| "coerce_none_values (JBool b) = JBool b"
| "coerce_none_values (JNum q) = JNum q"
| "coerce_none_values (JStr s) =
     (if py_strip s = ustr ''None'' \<or> py_strip s = ustr ''null'' \<or> py_strip s = [] then JNull
      else JStr s)"
| "coerce_none_values (JArr l) = JArr (map coerce_none_values l)"
| "coerce_none_values (JObj d) = JObj (map (map_prod id coerce_none_values) d)"

text \<open>\<open>d[k] = v\<close> on a dictionary.\<close>

definition dict_set :: "ustr \<Rightarrow> json \<Rightarrow> (ustr \<times> json) list \<Rightarrow> (ustr \<times> json) list" where
  "dict_set k v d =
     (if k \<in> set (map fst d) then map (\<lambda>(k', v'). if k' = k then (k', v) else (k', v')) d
      else d @ [(k, v)])"

text \<open>The loops \<open>for k in optional_..._keys: if k not in d: d[k] = None\<close>.\<close>

fun fill_missing :: "ustr list \<Rightarrow> (ustr \<times> json) list \<Rightarrow> (ustr \<times> json) list" where
  "fill_missing [] d = d"
| "fill_missing (k # ks) d =
     fill_missing ks (if k \<notin> set (map fst d) then dict_set k JNull d else d)"

text \<open>The loop over \<open>line_items\<close>; it returns the items with their optional keys filled.\<close>

fun check_items :: "json list \<Rightarrow> error + json list" where
  "check_items [] = Inr []"
| "check_items (item # items) =
     (case item of
        JObj d \<Rightarrow>
          if \<not> set [key_description, key_line_total] \<subseteq> set (map fst d) then
            Inl (Phase1ValidationError ''line_items[idx] missing required keys'')
          else
            (case check_items items of
               Inl e \<Rightarrow> Inl e
             | Inr rest \<Rightarrow> Inr (JObj (fill_missing [key_quantity, key_unit_price] d) # rest))
      | _ \<Rightarrow> Inl (Phase1ValidationError ''line_items[idx] must be an object/dict.''))"

definition phase1_validate :: "json \<Rightarrow> error + json" where
  "phase1_validate parsed =
     (case parsed of
        JObj raw \<Rightarrow>
          (case coerce_none_values parsed of
             JObj toplevel \<Rightarrow>
               if \<not> set [key_invoice_details, key_line_items, key_vendor_master_data]
                      \<subseteq> set (map fst toplevel) then
                 Inl (Phase1ValidationError ''Missing top-level keys'')
               else
                 (case map_of toplevel key_invoice_details of
                    Some (JObj invoice) \<Rightarrow>
                      if \<not> set [key_invoice_number, key_invoice_date, key_invoice_total_amount]
                             \<subseteq> set (map fst invoice) then
                        Inl (Phase1ValidationError ''invoice_details missing keys'')
                      else
                        (case map_of toplevel key_vendor_master_data of
                           Some (JObj vendor) \<Rightarrow>
                             if key_vendor_name \<notin> set (map fst vendor) then
                               Inl (Phase1ValidationError ''vendor_master_data missing keys'')
                             else
                               (let vendor =
                                  fill_missing
                                    [key_vendor_email_id, key_vendor_phone_number,
                                     key_vendor_physical_address, key_vendor_website] vendor
                                in case map_of toplevel key_line_items of
                                     Some (JArr items) \<Rightarrow>
                                       (case check_items items of
                                          Inl e \<Rightarrow> Inl e
                                        | Inr items \<Rightarrow>
                                            Inr (JObj
                                              (dict_set key_line_items (JArr items)
                                                (dict_set key_vendor_master_data (JObj vendor)
                                                  (dict_set key_invoice_details (JObj invoice)
                                                     toplevel)))))
                                   | _ \<Rightarrow> Inl (Phase1ValidationError ''line_items must be a list.''))
                         | _ \<Rightarrow>
                             Inl (Phase1ValidationError
                               ''vendor_master_data must be an object/dict.''))
                  | _ \<Rightarrow> Inl (Phase1ValidationError ''invoice_details must be an object/dict.''))
           | _ \<Rightarrow> Inl Phase1ParseError)
      | _ \<Rightarrow> Inl Phase1ParseError)"

definition llm_phase1_extract :: "(prompt \<Rightarrow> error + json) \<Rightarrow> ustr \<Rightarrow> error + json" where
  "llm_phase1_extract call_llm_api text =
     (case call_llm_api (Phase1Prompt text) of
        Inl e \<Rightarrow> Inl e
      | Inr parsed \<Rightarrow> phase1_validate parsed)"

section \<open>Vendor registry (\<open>database.py\<close>)\<close>

text \<open>
  An \<open>ObjectId\<close>, and its string form, is a natural number: it is never empty or false,
  and \<open>ObjectId(str(i))\<close> always succeeds. A vendor document holds the fields the
  resolver reads; a field that is absent from the document is \<open>None\<close>. A template
  document holds \<open>vendor_id\<close> and, if present, \<open>regex_patterns\<close>.
\<close>

type_synonym oid = nat

record vendor_doc =
  v_id :: oid
  v_name :: "json option"
  v_contact_email :: "json option"
  v_phone_number :: "json option"
  v_address :: "json option"
  v_website :: "json option"

text \<open>
  The state that resolution reads and writes: the two collections in their natural
  order, and the prompts sent to the language model so far.
\<close>

record world =
  vendors :: "vendor_doc list"
  templates :: "(oid \<times> json option) list"
  llm_log :: "prompt list"

record signals =
  sig_vendor_email_id :: "ustr option"
  sig_vendor_phone_number :: "ustr option"
  sig_website :: "ustr option"
  sig_vendor_name :: "ustr option"
  sig_vendor_physical_address :: "ustr option"

record vendor_context =
  ctx_vendor_id :: "oid option"
  ctx_vendor_name :: "json option"
  ctx_regex :: json
  ctx_created :: "bool option"
  ctx_matched_by :: "string option"
  ctx_identification_error :: "error option"

text \<open>
  What lies outside the code: \<open>env_matches q v\<close> says that the database finds the stored
  value \<open>v\<close> to match the query \<open>re.compile("^" + re.escape(q) + "$", re.IGNORECASE)\<close>;
  \<open>env_signals\<close> is \<open>extract_vendor_signals\<close>, whose regular expressions are not
  modelled; \<open>env_llm\<close> is \<open>call_llm_api\<close>; \<open>env_insert\<close> is the id that \<open>insert_one\<close>
  gives to a new vendor, \<open>None\<close> if it raises; \<open>env_object_id\<close> is the value of
  \<open>ObjectId()\<close>; \<open>env_apply_regex\<close> is \<open>apply_regex_extraction\<close>, which runs the patterns
  and is not modelled; \<open>env_category\<close> is \<open>get_line_item_category\<close>.
\<close>

record inv_data =
  ex_invoice_number :: "ustr option"
  ex_invoice_date :: "ustr option"
  ex_invoice_total_amount :: "ustr option"
  ex_order_date :: "ustr option"

record env =
  env_matches :: "ustr \<Rightarrow> json \<Rightarrow> bool"
  env_signals :: "ustr \<Rightarrow> signals"
  env_llm :: "prompt \<Rightarrow> error + json"
  env_insert :: "oid option"
  env_object_id :: oid
  env_apply_regex :: "ustr \<Rightarrow> json \<Rightarrow> error + (inv_data \<times> raw_item list)"
  env_category :: "ustr \<Rightarrow> ustr option"

text \<open>\<open>find_one({field: regex}, {"_id": 1})\<close> on the vendor collection.\<close>

definition find_one_vendor ::
  "(ustr \<Rightarrow> json \<Rightarrow> bool) \<Rightarrow> (vendor_doc \<Rightarrow> json option) \<Rightarrow> ustr \<Rightarrow> vendor_doc list \<Rightarrow> oid option" where
  "find_one_vendor matches field q vs =
     map_option v_id
       (List.find (\<lambda>d. case field d of Some v \<Rightarrow> matches q v | None \<Rightarrow> False) vs)"

definition get_vendor_by_email :: "(ustr \<Rightarrow> json \<Rightarrow> bool) \<Rightarrow> vendor_doc list \<Rightarrow> ustr \<Rightarrow> oid option" where
  "get_vendor_by_email matches vs email =
     (if email = [] then None else find_one_vendor matches v_contact_email email vs)"

definition get_vendor_by_website :: "(ustr \<Rightarrow> json \<Rightarrow> bool) \<Rightarrow> vendor_doc list \<Rightarrow> ustr \<Rightarrow> oid option" where
  "get_vendor_by_website matches vs url =
     (if url = [] then None else find_one_vendor matches v_website url vs)"

definition get_vendor_by_address :: "(ustr \<Rightarrow> json \<Rightarrow> bool) \<Rightarrow> vendor_doc list \<Rightarrow> ustr \<Rightarrow> oid option" where
  "get_vendor_by_address matches vs address =
     (if address = [] then None else find_one_vendor matches v_address address vs)"

definition get_vendor_by_phone :: "(ustr \<Rightarrow> json \<Rightarrow> bool) \<Rightarrow> vendor_doc list \<Rightarrow> ustr \<Rightarrow> oid option" where
  "get_vendor_by_phone matches vs phone =
     (if phone = [] then None else find_one_vendor matches v_phone_number phone vs)"

definition get_vendor_by_name :: "(ustr \<Rightarrow> json \<Rightarrow> bool) \<Rightarrow> vendor_doc list \<Rightarrow> ustr \<Rightarrow> oid option" where
  "get_vendor_by_name matches vs name =
     (if name = [] then None else find_one_vendor matches v_name name vs)"

definition get_vendor_name_by_id :: "vendor_doc list \<Rightarrow> oid \<Rightarrow> json option" where
  "get_vendor_name_by_id vs vendor_id =
     (case List.find (\<lambda>d. v_id d = vendor_id) vs of
        None \<Rightarrow> None
      | Some d \<Rightarrow> (case v_name d of Some JNull \<Rightarrow> None | n \<Rightarrow> n))"

definition get_vendor_regex_patterns :: "(oid \<times> json option) list \<Rightarrow> oid \<Rightarrow> json" where
  "get_vendor_regex_patterns ts vendor_id =
     (case List.find (\<lambda>t. fst t = vendor_id) ts of
        Some (_, Some regex_patterns) \<Rightarrow> regex_patterns
      | _ \<Rightarrow> JArr [])"

text \<open>
  \<open>create_vendor\<close>: the document to insert, without the fields whose value is \<open>None\<close>;
  the result is the new id, or \<open>None\<close> when the name is missing or the insertion fails.
\<close>

definition not_none :: "json option \<Rightarrow> json option" where
  "not_none v = (case v of Some JNull \<Rightarrow> None | _ \<Rightarrow> v)"

definition create_vendor :: "oid option \<Rightarrow> world \<Rightarrow> (ustr \<times> json) list \<Rightarrow> oid option \<times> world" where
  "create_vendor insert_result w vendor_data =
     (case map_of vendor_data key_vendor_name of
        None \<Rightarrow> (None, w)
      | Some vendor_name \<Rightarrow>
          if \<not> py_truthy vendor_name then (None, w)
          else
            (case insert_result of
               None \<Rightarrow> (None, w)
             | Some new_id \<Rightarrow>
                 (Some new_id,
                  w\<lparr>vendors := vendors w @
                     [\<lparr>v_id = new_id, v_name = Some vendor_name,
                       v_contact_email = not_none (map_of vendor_data key_vendor_email_id),
                       v_phone_number = not_none (map_of vendor_data key_vendor_phone_number),
                       v_address = not_none (map_of vendor_data key_vendor_physical_address),
                       v_website = not_none (map_of vendor_data key_vendor_website)\<rparr>]\<rparr>)))"

text \<open>\<open>d.get(k, "")\<close> and \<open>d.get(k, {})\<close>.\<close>

definition get_or :: "json \<Rightarrow> (ustr \<times> json) list \<Rightarrow> ustr \<Rightarrow> json" where
  "get_or dflt d k = (case map_of d k of Some v \<Rightarrow> v | None \<Rightarrow> dflt)"

text \<open>
  The flattening of a nested template into the list of eleven patterns. The source calls
  \<open>.get\<close> on the two inner values; on a value that is not a dictionary this raises, which
  cannot happen for a template that passed \<open>phase2_validate\<close>. Such a value is read
  here as an empty dictionary.
\<close>

definition flatten_patterns :: "(ustr \<times> json) list \<Rightarrow> json list" where
  "flatten_patterns new_regexes =
     (let inv_data = (case get_or (JObj []) new_regexes key_invoice_level of JObj d \<Rightarrow> d | _ \<Rightarrow> []);
          li_data = (case get_or (JObj []) new_regexes key_line_item_level of JObj d \<Rightarrow> d | _ \<Rightarrow> [])
      in [get_or (JStr []) inv_data key_invoice_number,
          get_or (JStr []) inv_data key_invoice_date,
          get_or (JStr []) inv_data key_invoice_total_amount,
          get_or (JStr []) inv_data key_order_date,
          get_or (JStr []) li_data key_line_item_block_start,
          get_or (JStr []) li_data key_line_item_block_end,
          get_or (JStr []) li_data key_quantity,
          get_or (JStr []) li_data key_description,
          get_or (JStr []) li_data key_unit,
          get_or (JStr []) li_data key_unit_price,
          get_or (JStr []) li_data key_line_total])"

text \<open>\<open>update_one({"vendor_id": vid}, {"$set": ...}, upsert=True)\<close> on the templates.\<close>

fun upsert_template :: "oid \<Rightarrow> json \<Rightarrow> (oid \<times> json option) list \<Rightarrow> (oid \<times> json option) list" where
  "upsert_template vid pats [] = [(vid, Some pats)]"
| "upsert_template vid pats (t # ts) =
     (if fst t = vid then (vid, Some pats) # ts else t # upsert_template vid pats ts)"

definition save_vendor_regex_template :: "world \<Rightarrow> oid option \<Rightarrow> json \<Rightarrow> world" where
  "save_vendor_regex_template w new_vendor_id new_regexes =
     (case new_vendor_id of
        None \<Rightarrow> w
      | Some vid \<Rightarrow>
          (case new_regexes of
             JObj d \<Rightarrow>
               if d = [] then w
               else w\<lparr>templates := upsert_template vid (JArr (flatten_patterns d)) (templates w)\<rparr>
           | _ \<Rightarrow> w))"

section \<open>Vendor resolution (\<open>vendor_identifier.py\<close>)\<close>

text \<open>
  \<open>_normalize_name\<close>: \<open>re.sub(r'[^a-z0-9]+', '', name.lower().strip())\<close>. The code points
  whose lower-case form holds a character of \<open>[a-z0-9]\<close> are the letters \<open>A\<close> to \<open>Z\<close>,
  the characters of \<open>[a-z0-9]\<close> themselves, U+0130 (lowered to \<open>i\<close> and U+0307) and the
  Kelvin sign U+212A (lowered to \<open>k\<close>); every other character is removed.
\<close>

definition lower_alnum :: "nat \<Rightarrow> ustr" where
  "lower_alnum c =
     (if 65 \<le> c \<and> c \<le> 90 then [c + 32]
      else if (97 \<le> c \<and> c \<le> 122) \<or> is_digit c then [c]
      else if c = 304 then [105]
      else if c = 8490 then [107]
      else [])"

definition normalize_name :: "ustr \<Rightarrow> ustr" where
  "normalize_name name = (if name = [] then [] else concat (map lower_alnum name))"

definition find_vendor_by_address :: "(ustr \<Rightarrow> json \<Rightarrow> bool) \<Rightarrow> vendor_doc list \<Rightarrow> ustr \<Rightarrow> oid option" where
  "find_vendor_by_address matches vs extracted_addr =
     (if extracted_addr = [] then None
      else get_vendor_by_address matches vs (py_strip extracted_addr))"

definition find_vendor_by_website :: "(ustr \<Rightarrow> json \<Rightarrow> bool) \<Rightarrow> vendor_doc list \<Rightarrow> ustr \<Rightarrow> oid option" where
  "find_vendor_by_website matches vs extracted_url =
     (if extracted_url = [] then None
      else get_vendor_by_website matches vs (py_strip extracted_url))"

definition find_vendor_by_email :: "(ustr \<Rightarrow> json \<Rightarrow> bool) \<Rightarrow> vendor_doc list \<Rightarrow> ustr \<Rightarrow> oid option" where
  "find_vendor_by_email matches vs extracted_email =
     (if extracted_email = [] then None
      else get_vendor_by_email matches vs (py_strip extracted_email))"

text \<open>
  \<open>re.sub(r'\D', '', phone)\<close> keeps the decimal digits; as for \<open>float\<close>, these are taken
  to be the ASCII digits.
\<close>

definition find_vendor_by_phone :: "(ustr \<Rightarrow> json \<Rightarrow> bool) \<Rightarrow> vendor_doc list \<Rightarrow> ustr \<Rightarrow> oid option" where
  "find_vendor_by_phone matches vs extracted_phone =
     (let target = filter is_digit extracted_phone
      in if length target < 7 then None else get_vendor_by_phone matches vs target)"

definition find_vendor_by_name :: "(ustr \<Rightarrow> json \<Rightarrow> bool) \<Rightarrow> vendor_doc list \<Rightarrow> ustr \<Rightarrow> oid option" where
  "find_vendor_by_name matches vs target =
     (if target = [] then None else get_vendor_by_name matches vs target)"

definition find_vendor_name_by_id :: "vendor_doc list \<Rightarrow> oid option \<Rightarrow> json option" where
  "find_vendor_name_by_id vs vid =
     (case vid of
        None \<Rightarrow> None
      | Some i \<Rightarrow>
          (case get_vendor_name_by_id vs i of
             None \<Rightarrow> None
           | Some n \<Rightarrow> if py_truthy n then Some n else None))"

text \<open>
  \<open>search_vendor_by_signals\<close>. \<open>if_signal sig look\<close> is the pattern
  \<open>if sig: vid = look(sig)\<close>, with no id when the signal is \<open>None\<close> or empty.
\<close>

definition if_signal :: "ustr option \<Rightarrow> (ustr \<Rightarrow> oid option) \<Rightarrow> oid option" where
  "if_signal sig look = (case sig of None \<Rightarrow> None | Some u \<Rightarrow> if u = [] then None else look u)"

definition search_vendor_by_signals ::
  "(ustr \<Rightarrow> json \<Rightarrow> bool) \<Rightarrow> vendor_doc list \<Rightarrow> signals \<Rightarrow> (oid \<times> string) option" where
  "search_vendor_by_signals matches vs sigs =
     (case if_signal (sig_website sigs) (find_vendor_by_website matches vs) of
        Some vid \<Rightarrow> Some (vid, ''website'')
      | None \<Rightarrow>
     (case if_signal (sig_vendor_email_id sigs) (find_vendor_by_email matches vs) of
        Some vid \<Rightarrow> Some (vid, ''email'')
      | None \<Rightarrow>
     (case if_signal (sig_vendor_phone_number sigs) (find_vendor_by_phone matches vs) of
        Some vid \<Rightarrow> Some (vid, ''phone'')
      | None \<Rightarrow>
     (case if_signal (sig_vendor_physical_address sigs) (find_vendor_by_address matches vs) of
        Some vid \<Rightarrow> Some (vid, ''address'')
      | None \<Rightarrow>
     (case if_signal (sig_vendor_name sigs)
             (\<lambda>name. let normalized = normalize_name name
                      in if 3 \<le> length normalized
                         then find_vendor_by_name matches vs normalized else None) of
        Some vid \<Rightarrow> Some (vid, ''name'')
      | None \<Rightarrow> None)))))"

text \<open>
  \<open>save_vendor_details\<close> raises when the vendor name is missing or false, and otherwise
  returns what \<open>create_vendor\<close> returns.
\<close>

definition save_vendor_details ::
  "oid option \<Rightarrow> world \<Rightarrow> (ustr \<times> json) list \<Rightarrow> (error + oid option) \<times> world" where
  "save_vendor_details insert_result w vendor_master_data =
     (if \<not> py_truthy (get_or JNull vendor_master_data key_vendor_name) then
        (Inl (ValueError ''vendor_name required to save vendor.''), w)
      else
        (case create_vendor insert_result w vendor_master_data of
           (new_id, w') \<Rightarrow> (Inr new_id, w')))"

text \<open>
  \<open>identify_vendor_and_get_regex\<close>. Each call of the language model is recorded in
  \<open>llm_log\<close> before its answer is used. \<open>phase1["vendor_master_data"]\<close> is a dictionary
  once phase 1 has passed; any other value is read as an empty dictionary.
\<close>

definition identify_vendor_and_get_regex ::
  "env \<Rightarrow> world \<Rightarrow> ustr \<Rightarrow> (error + vendor_context) \<times> world" where
  "identify_vendor_and_get_regex e w text =
     (let sigs = env_signals e text in
      case search_vendor_by_signals (env_matches e) (vendors w) sigs of
        Some (vendor_id, matched_by) \<Rightarrow>
          (let vendor_name = find_vendor_name_by_id (vendors w) (Some vendor_id);
               regex_list = get_vendor_regex_patterns (templates w) vendor_id
           in if py_truthy regex_list then
                (Inr \<lparr>ctx_vendor_id = Some vendor_id, ctx_vendor_name = vendor_name,
                      ctx_regex = regex_list, ctx_created = Some False,
                      ctx_matched_by = Some matched_by, ctx_identification_error = None\<rparr>, w)
              else
                (Inl (ValueError ''Vendor found - But no regex for that vendor found in DB''), w))
      | None \<Rightarrow>
          (let w1 = w\<lparr>llm_log := llm_log w @ [Phase1Prompt text]\<rparr> in
           case llm_phase1_extract (env_llm e) text of
             Inl err \<Rightarrow> (Inl err, w1)
           | Inr phase1 \<Rightarrow>
               if py_truthy phase1 then
                 (let vendor =
                        (case phase1 of
                           JObj d \<Rightarrow> (case map_of d key_vendor_master_data of
                                        Some (JObj v) \<Rightarrow> v | _ \<Rightarrow> [])
                         | _ \<Rightarrow> []);
                      w2 = w1\<lparr>llm_log := llm_log w1 @ [Phase2Prompt text phase1]\<rparr>
                  in case llm_phase2_generate_regex (env_llm e) text phase1 of
                       Inl err \<Rightarrow> (Inl err, w2)
                     | Inr new_regexes \<Rightarrow>
                         (case save_vendor_details (env_insert e) w2 vendor of
                            (Inl err, w3) \<Rightarrow> (Inl err, w3)
                          | (Inr new_vendor_id, w3) \<Rightarrow>
                              (let vendor_name = find_vendor_name_by_id (vendors w3) None
                               in if py_truthy new_regexes then
                                    (Inr \<lparr>ctx_vendor_id = new_vendor_id,
                                          ctx_vendor_name = vendor_name,
                                          ctx_regex = new_regexes, ctx_created = Some True,
                                          ctx_matched_by = None,
                                          ctx_identification_error = None\<rparr>,
                                     save_vendor_regex_template w3 new_vendor_id new_regexes)
                                  else
                                    (Inl (ValueError ''Vendor not found - LLM Phase 2 failed''),
                                     w3))))
               else (Inl (ValueError ''Vendor not found - But llm phase-1 output failed''), w1)))"

text \<open>
  A matcher for examples: equality of strings up to the case of ASCII letters, which is
  what the query is meant to test.
\<close>

definition ci_equal :: "ustr \<Rightarrow> json \<Rightarrow> bool" where
  "ci_equal q v = (case v of JStr s \<Rightarrow> map ascii_lower s = map ascii_lower q | _ \<Rightarrow> False)"

section \<open>The pipeline entry (\<open>build_dataframe.py\<close>)\<close>

record invoice_record =
  inv_filename :: ustr
  inv_restaurant_id :: ustr
  inv_vendor_id :: "oid option"
  inv_invoice_number :: "ustr option"
  inv_invoice_date :: "ustr option"
  inv_invoice_total_amount :: "ustr option"
  inv_text_length :: nat
  inv_page_count :: nat
  inv_extraction_timestamp :: ustr
  inv_order_date :: "ustr option"

text \<open>The generic patterns of the fallback context; \<open>92\<close> is the backslash.\<close>

definition generic_regex :: json where
  "generic_regex =
     JObj [(key_invoice_level,
            JObj [(key_invoice_number,
                   JStr (ustr ''(?:invoice|inv)['' @ 92 # ustr ''s#:]*([0-9]+)'')),
                  (key_invoice_date,
                   JStr (ustr ''(?:date|dated)['' @ 92 # ustr ''s:]*('' @ 92 # ustr ''d{1,2}[-/]'' @
                         92 # ustr ''d{1,2}[-/]'' @ 92 # ustr ''d{2,4})'')),
                  (key_invoice_total_amount,
                   JStr (ustr ''(?:total|amount due)['' @ 92 # ustr ''s:$]*('' @ 92 # ustr ''d+[.,]'' @
                         92 # ustr ''d{2})'')),
                  (key_order_date, JStr [])]),
           (key_line_item_level,
            JObj [(key_line_item_block_start, JStr (ustr ''(?:description|item)'')),
                  (key_line_item_block_end, JStr (ustr ''(?:subtotal|total)'')),
                  (key_quantity,
                   JStr (ustr ''('' @ 92 # ustr ''d+'' @ 92 # ustr ''.?'' @ 92 # ustr ''d*)'')),
                  (key_description, JStr (ustr ''([A-Za-z0-9'' @ 92 # ustr ''s,.-]+)'')),
                  (key_unit, JStr (ustr ''(EA|LB|CS|GAL|BOX|PKG)'')),
                  (key_unit_price,
                   JStr (92 # ustr ''$?('' @ 92 # ustr ''d+'' @ 92 # ustr ''.'' @ 92 # ustr ''d{2})'')),
                  (key_line_total,
                   JStr (92 # ustr ''$?('' @ 92 # ustr ''d+'' @ 92 # ustr ''.'' @ 92 # ustr ''d{2})''))])]"

text \<open>
  The context built in the \<open>except\<close> branch. \<open>str(exc)\<close> is represented by the exception
  itself; the keys \<open>created\<close> and \<open>matched_by\<close> are absent from this dictionary.
\<close>

definition fallback_context :: "oid \<Rightarrow> error \<Rightarrow> vendor_context" where
  "fallback_context object_id exc =
     \<lparr>ctx_vendor_id = Some object_id,
      ctx_vendor_name = Some (JStr (ustr ''Unknown Vendor'')),
      ctx_regex = generic_regex,
      ctx_created = None,
      ctx_matched_by = None,
      ctx_identification_error = Some exc\<rparr>"

text \<open>The first \<open>try\<close> block: resolution, or the fallback when resolution raises.\<close>

definition resolve_vendor_context :: "env \<Rightarrow> world \<Rightarrow> ustr \<Rightarrow> vendor_context \<times> world" where
  "resolve_vendor_context e w extracted_text =
     (case identify_vendor_and_get_regex e w extracted_text of
        (Inr vendor_context, w') \<Rightarrow> (vendor_context, w')
      | (Inl exc, w') \<Rightarrow> (fallback_context (env_object_id e) exc, w'))"

definition build_invoice_record ::
  "inv_data \<Rightarrow> vendor_context \<Rightarrow> ustr \<Rightarrow> ustr \<Rightarrow> nat \<Rightarrow> nat \<Rightarrow> ustr \<Rightarrow> invoice_record" where
  "build_invoice_record extracted_inv_data vendor_context filename restaurant_id text_length
       page_count extraction_timestamp =
     \<lparr>inv_filename = filename,
      inv_restaurant_id = restaurant_id,
      inv_vendor_id = ctx_vendor_id vendor_context,
      inv_invoice_number = ex_invoice_number extracted_inv_data,
      inv_invoice_date = ex_invoice_date extracted_inv_data,
      inv_invoice_total_amount = ex_invoice_total_amount extracted_inv_data,
      inv_text_length = text_length,
      inv_page_count = page_count,
      inv_extraction_timestamp = extraction_timestamp,
      inv_order_date = ex_order_date extracted_inv_data\<rparr>"

text \<open>The rest of \<open>get_structured_data_from_text\<close>, once the vendor context is known.\<close>

definition build_from_context ::
  "env \<Rightarrow> vendor_context \<Rightarrow> ustr \<Rightarrow> ustr \<Rightarrow> nat \<Rightarrow> nat \<Rightarrow> ustr \<Rightarrow> ustr \<Rightarrow>
   error + (invoice_record \<times> line_item list)" where
  "build_from_context e vendor_context extracted_text filename text_length page_count
       extraction_timestamp restaurant_id =
     (case env_apply_regex e extracted_text (ctx_regex vendor_context) of
        Inl exc \<Rightarrow> Inl (ValueError ''Failed to apply regex'')
      | Inr (extracted_inv_data, extracted_li_data) \<Rightarrow>
          (let inv_df = build_invoice_record extracted_inv_data vendor_context filename
                          restaurant_id text_length page_count extraction_timestamp
           in case build_line_items_records (env_category e) (ctx_vendor_name vendor_context)
                     extracted_li_data of
                Inl exc \<Rightarrow> Inl exc
              | Inr li_df \<Rightarrow> Inr (inv_df, li_df)))"

text \<open>
  \<open>get_structured_data_from_text\<close>. Its argument \<open>file_path\<close> is only passed on to
  \<open>identify_vendor_and_get_regex\<close>, which does not use it.
\<close>

definition get_structured_data_from_text ::
  "env \<Rightarrow> world \<Rightarrow> ustr \<Rightarrow> ustr \<Rightarrow> nat \<Rightarrow> nat \<Rightarrow> ustr \<Rightarrow> ustr \<Rightarrow>
   (error + (invoice_record \<times> line_item list)) \<times> world" where
  "get_structured_data_from_text e w extracted_text filename text_length page_count
       extraction_timestamp restaurant_id =
     (if py_strip extracted_text = [] then (Inl (ValueError ''Input text cannot be empty''), w)
      else
        (case resolve_vendor_context e w extracted_text of
           (vendor_context, w') \<Rightarrow>
             (build_from_context e vendor_context extracted_text filename text_length
                page_count extraction_timestamp restaurant_id, w')))"

section \<open>Sample data for the examples\<close>

definition sample_vendor :: "oid \<Rightarrow> ustr \<Rightarrow> json option \<Rightarrow> vendor_doc" where
  "sample_vendor i name site =
     \<lparr>v_id = i, v_name = Some (JStr name), v_contact_email = None, v_phone_number = None,
      v_address = None, v_website = site\<rparr>"

definition sample_signals :: "ustr option \<Rightarrow> ustr option \<Rightarrow> signals" where
  "sample_signals site name =
     \<lparr>sig_vendor_email_id = None, sig_vendor_phone_number = None, sig_website = site,
      sig_vendor_name = name, sig_vendor_physical_address = None\<rparr>"

text \<open>
  An environment whose signal extractor always finds \<open>sigs\<close> and whose language model
  answers \<open>llm\<close>; new vendors get the id 7, \<open>ObjectId()\<close> is 99, and extraction finds no
  header field and no line item.
\<close>

definition sample_env :: "signals \<Rightarrow> (prompt \<Rightarrow> error + json) \<Rightarrow> env" where
  "sample_env sigs llm =
     \<lparr>env_matches = ci_equal, env_signals = (\<lambda>text. sigs), env_llm = llm,
      env_insert = Some 7, env_object_id = 99,
      env_apply_regex =
        (\<lambda>text regex. Inr (\<lparr>ex_invoice_number = None, ex_invoice_date = None,
                              ex_invoice_total_amount = None, ex_order_date = None\<rparr>, [])),
      env_category = (\<lambda>d. Some (ustr ''Uncategorized''))\<rparr>"

definition sample_phase1 :: json where
  "sample_phase1 =
     JObj [(key_invoice_details,
            JObj [(key_invoice_number, JStr (ustr ''1001'')),
                  (key_invoice_date, JStr (ustr ''2024-01-31'')),
                  (key_invoice_total_amount, JStr (ustr ''6.00''))]),
           (key_line_items, JArr []),
           (key_vendor_master_data, JObj [(key_vendor_name, JStr (ustr ''Acme Foods''))])]"

definition sample_llm :: "prompt \<Rightarrow> error + json" where
  "sample_llm p =
     (case p of
        Phase1Prompt text \<Rightarrow> Inr sample_phase1
      | Phase2Prompt text phase1 \<Rightarrow>
          Inr (sample_template (JStr []) (JStr (ustr ''Description'')) (JStr [])))"

section \<open>Materialization of page groups (\<open>regularize_file.py\<close>)\<close>

subsection \<open>Validation in \<open>process_multi_page_pdf\<close>\<close>

text \<open>
  The inner loop over the pages of one group: range check, overlap check, and the page
  is added to \<open>covered_pages\<close>.
\<close>

fun check_pages :: "nat \<Rightarrow> nat list \<Rightarrow> nat list \<Rightarrow> error + nat list" where
  "check_pages num_pages covered [] = Inr covered"
| "check_pages num_pages covered (page_index # rest) =
     (if page_index < 1 \<or> page_index > num_pages then
        Inl (ValueError ''Page indices must be 1-based integers within page range.'')
      else if page_index \<in> set covered then
        Inl (ValueError ''Overlapping page indices detected in groups.'')
      else check_pages num_pages (page_index # covered) rest)"

text \<open>The loop over the groups; it returns \<open>validated_groups\<close>.\<close>

fun validate_groups :: "nat \<Rightarrow> nat list \<Rightarrow> nat list list \<Rightarrow> error + nat list list" where
  "validate_groups num_pages covered [] = Inr []"
| "validate_groups num_pages covered (grp # rest) =
     (if grp = [] then validate_groups num_pages covered rest
      else if \<not> consecutive grp then
        Inl (ValueError ''Each inner group must contain consecutive page indices.'')
      else
        (case check_pages num_pages covered grp of
           Inl e \<Rightarrow> Inl e
         | Inr covered' \<Rightarrow>
             (case validate_groups num_pages covered' rest of
                Inl e \<Rightarrow> Inl e
              | Inr validated \<Rightarrow> Inr (grp # validated))))"

subsection \<open>Files\<close>

text \<open>
  A path is a directory and a file name. A file system maps the paths that exist to
  their content: a PDF with the listed pages of the source, or an unfinished file.
\<close>

type_synonym path = "ustr \<times> ustr"

datatype content = Pdf "nat list" | Partial

type_synonym fs = "path \<Rightarrow> content option"

definition PROCESSED_DIR :: ustr where
  "PROCESSED_DIR = ustr ''data/processed_area''"

text \<open>
  \<open>p.stem\<close>: the name without its last suffix. A leading dot, or a dot at the very end,
  starts no suffix.
\<close>

definition stem :: "ustr \<Rightarrow> ustr" where
  "stem name =
     (let i = rfind 46 name
      in if 0 < i \<and> i < int (length name) - 1 then take (nat i) name else name)"

text \<open>\<open>str(n)\<close> for a page number.\<close>

fun nat_to_str :: "nat \<Rightarrow> ustr" where
  "nat_to_str n = (if n < 10 then [48 + n] else nat_to_str (n div 10) @ [48 + n mod 10])"

declare nat_to_str.simps [simp del]

definition group_filename :: "ustr \<Rightarrow> nat list \<Rightarrow> ustr" where
  "group_filename base_name grp =
     (let start = hd grp; end = last grp
      in if start = end then base_name @ ustr ''-page'' @ nat_to_str start @ ustr ''.pdf''
         else base_name @ ustr ''-page'' @ nat_to_str start @ ustr ''-'' @ nat_to_str end @
              ustr ''.pdf'')"

text \<open>The part of such a file name after the base name.\<close>

definition name_tail :: "nat list \<Rightarrow> ustr" where
  "name_tail grp =
     (if hd grp = last grp then ustr ''-page'' @ nat_to_str (hd grp) @ ustr ''.pdf''
      else ustr ''-page'' @ nat_to_str (hd grp) @ ustr ''-'' @ nat_to_str (last grp) @
           ustr ''.pdf'')"

definition final_path :: "ustr \<Rightarrow> nat list \<Rightarrow> path" where
  "final_path base_name grp = (PROCESSED_DIR, group_filename base_name grp)"

definition temp_path :: "ustr \<Rightarrow> nat list \<Rightarrow> path" where
  "temp_path base_name grp = (PROCESSED_DIR, ustr ''.tmp-'' @ group_filename base_name grp)"

subsection \<open>\<open>split_pdf_by_page_groups\<close>\<close>

text \<open>
  What the operating system and the PDF library may do is given by two oracles: the
  step at which writing the output named \<open>f\<close> fails, if any, and whether removing a path
  fails. Copying the \<open>/Info\<close> dictionary is not modelled.
\<close>

datatype fault = NoFault | BuildFails | OpenFails | WriteFails | ReplaceFails

record io =
  io_fault :: "ustr \<Rightarrow> fault"
  unlink_fails :: "path \<Rightarrow> bool"

text \<open>
  \<open>reader.pages[page_index - 1]\<close> on a source of \<open>num_pages\<close> pages: the index \<open>-1\<close>
  reads the last page, an index past the end raises \<open>IndexError\<close>.
\<close>

definition page_at :: "nat \<Rightarrow> nat \<Rightarrow> nat option" where
  "page_at num_pages page_index =
     (if page_index = 0 then (if 1 \<le> num_pages then Some num_pages else None)
      else if page_index \<le> num_pages then Some page_index
      else None)"

fun read_pages :: "nat \<Rightarrow> nat list \<Rightarrow> nat list option" where
  "read_pages num_pages [] = Some []"
| "read_pages num_pages (page_index # rest) =
     (case page_at num_pages page_index of
        None \<Rightarrow> None
      | Some pg \<Rightarrow> map_option ((#) pg) (read_pages num_pages rest))"

text \<open>
  One iteration of the loop for a non-empty group: build the writer, open and write the
  temporary file, rename it to the final name. The result is the final path, which the
  loop appends to \<open>created\<close>, or the exception.
\<close>

definition write_group :: "io \<Rightarrow> nat \<Rightarrow> ustr \<Rightarrow> fs \<Rightarrow> nat list \<Rightarrow> (error + path) \<times> fs" where
  "write_group os num_pages base_name files grp =
     (case read_pages num_pages grp of
        None \<Rightarrow> (Inl IndexError, files)
      | Some pages \<Rightarrow>
          (case io_fault os (group_filename base_name grp) of
             BuildFails \<Rightarrow> (Inl (OSError ''add_page''), files)
           | OpenFails \<Rightarrow> (Inl (OSError ''open''), files)
           | WriteFails \<Rightarrow>
               (Inl (OSError ''write''), files(temp_path base_name grp \<mapsto> Partial))
           | ReplaceFails \<Rightarrow>
               (Inl (OSError ''replace''), files(temp_path base_name grp \<mapsto> Pdf pages))
           | NoFault \<Rightarrow>
               (Inr (final_path base_name grp),
                (files(temp_path base_name grp := None))
                  (final_path base_name grp \<mapsto> Pdf pages))))"

text \<open>The loop \<open>for group in groups\<close> with the list \<open>created\<close>.\<close>

fun split_loop ::
  "io \<Rightarrow> nat \<Rightarrow> ustr \<Rightarrow> fs \<Rightarrow> path list \<Rightarrow> nat list list \<Rightarrow> error option \<times> fs \<times> path list" where
  "split_loop os num_pages base_name files created [] = (None, files, created)"
| "split_loop os num_pages base_name files created (grp # rest) =
     (if grp = [] then split_loop os num_pages base_name files created rest
      else
        (case write_group os num_pages base_name files grp of
           (Inl exc, files') \<Rightarrow> (Some exc, files', created)
         | (Inr f, files') \<Rightarrow>
             split_loop os num_pages base_name files' (created @ [f]) rest))"

text \<open>
  \<open>f.unlink()\<close>: it fails when the oracle says so or when the file does not exist.
\<close>

definition unlink :: "io \<Rightarrow> fs \<Rightarrow> path \<Rightarrow> bool \<times> fs" where
  "unlink os files f =
     (if unlink_fails os f \<or> files f = None then (False, files) else (True, files(f := None)))"

text \<open>The clean-up loop of the \<open>except\<close> branch; a failed removal is only logged.\<close>

fun cleanup :: "io \<Rightarrow> fs \<Rightarrow> path list \<Rightarrow> fs" where
  "cleanup os files [] = files"
| "cleanup os files (f # rest) = cleanup os (snd (unlink os files f)) rest"

definition split_pdf_by_page_groups ::
  "io \<Rightarrow> nat \<Rightarrow> path \<Rightarrow> fs \<Rightarrow> nat list list \<Rightarrow> error option \<times> fs" where
  "split_pdf_by_page_groups os num_pages p files groups =
     (case split_loop os num_pages (stem (snd p)) files [] groups of
        (Some exc, files', created) \<Rightarrow> (Some exc, cleanup os files' created)
      | (None, files', created) \<Rightarrow>
          (case unlink os files' p of
             (True, files'') \<Rightarrow> (None, files'')
           | (False, files'') \<Rightarrow> (Some (OSError ''unlink''), cleanup os files'' created)))"

subsection \<open>A sample run\<close>

text \<open>
  A two-page source in the staging area, an operating system on which nothing fails, and
  one on which writing the second output fails and the first output cannot be removed.
\<close>

definition sample_original :: path where
  "sample_original = (ustr ''data/staging_area'', ustr ''inv.pdf'')"

definition sample_files :: fs where
  "sample_files = (\<lambda>q. if q = sample_original then Some (Pdf [1, 2]) else None)"

definition reliable_os :: io where
  "reliable_os = \<lparr>io_fault = (\<lambda>f. NoFault), unlink_fails = (\<lambda>q. False)\<rparr>"

definition faulty_os :: io where
  "faulty_os =
     \<lparr>io_fault = (\<lambda>f. if f = ustr ''inv-page2.pdf'' then WriteFails else NoFault),
      unlink_fails = (\<lambda>q. q = (PROCESSED_DIR, ustr ''inv-page1.pdf''))\<rparr>"

section \<open>Properties of the segmenter\<close>

lemma consecutive_snoc:
  "consecutive g \<Longrightarrow> g \<noteq> [] \<Longrightarrow> i = last g + 1 \<Longrightarrow> consecutive (g @ [i])"
  by (induction g rule: consecutive.induct) auto

lemma last_of_upt_split:
  assumes "xs @ g = [1..<i]" "g \<noteq> []"
  shows "last g + 1 = i"
proof -
  have "last (xs @ g) = last g" using assms(2) by simp
  moreover have "[1..<i] \<noteq> []" using assms by (metis append_is_Nil_conv)
  then have "1 < i" by simp
  then have "last [1..<i] = i - 1" by simp
  ultimately show ?thesis using assms(1) \<open>1 < i\<close> by simp
qed

lemma seg_inv_init: "seg_inv seg_init 1"
  by (simp add: seg_inv_def seg_init_def)

lemma seg_inv_step:
  assumes "seg_inv s i" "1 \<le> i"
  shows "seg_inv (page_step s i f) (Suc i)"
proof (cases "i = 1")
  case True
  with assms show ?thesis by (auto simp: seg_inv_def page_step_def)
next
  case False
  with assms have ne: "current_group s \<noteq> []" and i1: "1 < i" by (auto simp: seg_inv_def)
  from assms have eq: "concat (grouped_invoices s) @ current_group s = [1..<i]"
    by (simp add: seg_inv_def)
  have l: "last (current_group s) + 1 = i" using last_of_upt_split[OF eq ne] .
  have c: "consecutive (current_group s @ [i])"
    using assms(1) ne l by (intro consecutive_snoc) (auto simp: seg_inv_def)
  have u: "[1..<Suc i] = [1..<i] @ [i]" using i1 by simp
  show ?thesis
    using assms(1) False ne c eq u by (auto simp: seg_inv_def page_step_def)
qed

lemma seg_inv_scan:
  "seg_inv s i \<Longrightarrow> 1 \<le> i \<Longrightarrow> seg_inv (scan_pages pats s i pages) (i + length pages)"
proof (induction pages arbitrary: s i)
  case Nil
  then show ?case by simp
next
  case (Cons p ps)
  have "seg_inv (page_step s i (page_found_id pats p)) (Suc i)"
    using Cons.prems by (rule seg_inv_step)
  then have "seg_inv (scan_pages pats (page_step s i (page_found_id pats p)) (Suc i) ps) (Suc i + length ps)"
    by (rule Cons.IH) simp
  then show ?case by simp
qed

lemma sorted_concat_nth:
  "sorted_wrt (<) (concat gs) \<Longrightarrow> j < k \<Longrightarrow> k < length gs \<Longrightarrow>
   x \<in> set (gs ! j) \<Longrightarrow> y \<in> set (gs ! k) \<Longrightarrow> x < (y::nat)"
proof (induction gs arbitrary: j k)
  case Nil
  then show ?case by simp
next
  case (Cons g gs)
  from Cons.prems(1) have s: "sorted_wrt (<) (concat gs)"
    and o: "\<forall>a\<in>set g. \<forall>b\<in>set (concat gs). a < b"
    by (simp_all add: sorted_wrt_append)
  obtain k' where k: "k = Suc k'" using Cons.prems(2) by (cases k) auto
  then have yin: "y \<in> set (gs ! k')" and k'len: "k' < length gs" using Cons.prems by auto
  show ?case
  proof (cases j)
    case 0
    then have "x \<in> set g" using Cons.prems by simp
    moreover have "y \<in> set (concat gs)" using yin k'len by auto
    ultimately show ?thesis using o by blast
  next
    case (Suc j')
    then have "j' < k'" "x \<in> set (gs ! j')" using Cons.prems k by auto
    then show ?thesis using Cons.IH[OF s _ k'len _ yin] by blast
  qed
qed

lemma seg_inv_close:
  assumes "seg_inv s i"
  shows "concat (close_groups s) = [1..<i] \<and>
         (\<forall>g \<in> set (close_groups s). g \<noteq> [] \<and> consecutive g) \<and>
         (1 < i \<longrightarrow> close_groups s \<noteq> [])"
  using assms by (auto simp: seg_inv_def close_groups_def)

text \<open>
  Claim C1. For every page sequence of length \<open>N\<close> (in particular for \<open>N \<ge> 1\<close>), the
  groups returned by \<open>detect_invoice_page_groups\<close> partition the pages: their
  concatenation, also once sorted, is exactly \<open>1, \<dots>, N\<close>, so no page is dropped or
  duplicated; every group is non-empty and made of consecutive page numbers; two different
  groups are disjoint and the earlier one holds the smaller page numbers; and at least one
  group is returned when there is at least one page.
\<close>

theorem detect_partition:
  "let gs = detect_invoice_page_groups pats pages; N = length pages in
     concat gs = [1..<N + 1] \<and> sort (concat gs) = [1..<N + 1] \<and>
     (\<forall>g \<in> set gs. g \<noteq> [] \<and> consecutive g) \<and>
     (\<forall>j k. j < k \<and> k < length gs \<longrightarrow>
        set (gs ! j) \<inter> set (gs ! k) = {} \<and> (\<forall>x \<in> set (gs ! j). \<forall>y \<in> set (gs ! k). x < y)) \<and>
     (1 \<le> N \<longrightarrow> gs \<noteq> [])"
proof -
  define gs where "gs = detect_invoice_page_groups pats pages"
  define N where "N = length pages"
  have inv: "seg_inv (scan_pages pats seg_init 1 pages) (1 + N)"
    unfolding N_def by (rule seg_inv_scan[OF seg_inv_init]) simp
  have gs: "gs = close_groups (scan_pages pats seg_init 1 pages)"
    by (simp add: gs_def detect_invoice_page_groups_def)
  from seg_inv_close[OF inv] have
    c: "concat gs = [1..<N + 1]" and g: "\<forall>g \<in> set gs. g \<noteq> [] \<and> consecutive g" and
    n: "1 \<le> N \<longrightarrow> gs \<noteq> []"
    unfolding gs by auto
  have srt: "sorted_wrt (<) (concat gs)" unfolding c by (rule sorted_wrt_upt)
  have ord: "\<forall>x \<in> set (gs ! j). \<forall>y \<in> set (gs ! k). x < y" if "j < k" "k < length gs" for j k
    using sorted_concat_nth[OF srt that] by blast
  have dis: "set (gs ! j) \<inter> set (gs ! k) = {}" if "j < k" "k < length gs" for j k
    using ord[OF that] by fastforce
  have "sort (concat gs) = [1..<N + 1]" unfolding c by (rule sort_upt)
  with c g n ord dis show ?thesis
    unfolding gs_def[symmetric] N_def[symmetric] Let_def by blast
qed

theorem detect_partition_witness:
  "detect_invoice_page_groups [\<lambda>t. if t = [] then None else Some t]
     [None, Some (ustr ''7''), Some (ustr ''8'')] = [[1], [2], [3]] \<and>
   (let gs = detect_invoice_page_groups [\<lambda>t. if t = [] then None else Some t]
              [None, Some (ustr ''7''), Some (ustr ''8'')];
        N = length [None, Some (ustr ''7''), Some (ustr ''8'')] in
     concat gs = [1..<N + 1] \<and> sort (concat gs) = [1..<N + 1] \<and>
     (\<forall>g \<in> set gs. g \<noteq> [] \<and> consecutive g) \<and>
     (\<forall>j k. j < k \<and> k < length gs \<longrightarrow>
        set (gs ! j) \<inter> set (gs ! k) = {} \<and> (\<forall>x \<in> set (gs ! j). \<forall>y \<in> set (gs ! k). x < y)) \<and>
     (1 \<le> N \<longrightarrow> gs \<noteq> []))"
proof
  show "detect_invoice_page_groups [\<lambda>t. if t = [] then None else Some t]
     [None, Some (ustr ''7''), Some (ustr ''8'')] = [[1], [2], [3]]"
    by (simp add: detect_invoice_page_groups_def close_groups_def seg_init_def page_step_def
      page_found_id_def py_strip_def py_lstrip_def py_rstrip_def py_isspace_def replace_char_def ustr_def)
next
  show "let gs = detect_invoice_page_groups [\<lambda>t. if t = [] then None else Some t]
              [None, Some (ustr ''7''), Some (ustr ''8'')];
        N = length [None, Some (ustr ''7''), Some (ustr ''8'')] in
     concat gs = [1..<N + 1] \<and> sort (concat gs) = [1..<N + 1] \<and>
     (\<forall>g \<in> set gs. g \<noteq> [] \<and> consecutive g) \<and>
     (\<forall>j k. j < k \<and> k < length gs \<longrightarrow>
        set (gs ! j) \<inter> set (gs ! k) = {} \<and> (\<forall>x \<in> set (gs ! j). \<forall>y \<in> set (gs ! k). x < y)) \<and>
     (1 \<le> N \<longrightarrow> gs \<noteq> [])"
    by (rule detect_partition)
qed

lemma scan_pages_append:
  "scan_pages pats s i (xs @ ys) = scan_pages pats (scan_pages pats s i xs) (i + length xs) ys"
  by (induction xs arbitrary: s i) auto

lemma scan_pages_run:
  assumes "1 < i" "\<forall>r \<in> set rs. page_found_id pats r = None \<or> page_found_id pats r = current_tracking_id s"
  shows "scan_pages pats s i rs = s\<lparr>current_group := current_group s @ [i..<i + length rs]\<rparr>"
  using assms
proof (induction rs arbitrary: s i)
  case Nil
  then show ?case by simp
next
  case (Cons r rs)
  let ?s' = "page_step s i (page_found_id pats r)"
  have st: "?s' = s\<lparr>current_group := current_group s @ [i]\<rparr>"
    using Cons.prems by (auto simp: page_step_def)
  have "scan_pages pats ?s' (Suc i) rs = ?s'\<lparr>current_group := current_group ?s' @ [Suc i..<Suc i + length rs]\<rparr>"
    using Cons.prems by (intro Cons.IH) (auto simp: st)
  moreover have "[i..<i + length (r # rs)] = i # [Suc i..<i + length (r # rs)]"
    by (rule upt_conv_Cons) simp
  moreover have "i + length (r # rs) = Suc i + length rs" by simp
  ultimately show ?case by (simp add: st)
qed

lemma scan_current_group_nonempty:
  "pre \<noteq> [] \<Longrightarrow> current_group (scan_pages pats seg_init 1 pre) \<noteq> []"
  using seg_inv_scan[OF seg_inv_init, of pats pre] by (auto simp: seg_inv_def)

lemma detect_snoc_continue:
  assumes "pre \<noteq> []"
    "page_found_id pats p = None \<or> page_found_id pats p = tracking_id_after pats pre"
  shows "detect_invoice_page_groups pats (pre @ [p]) =
           butlast (detect_invoice_page_groups pats pre) @
           [last (detect_invoice_page_groups pats pre) @ [length pre + 1]]"
    and "tracking_id_after pats (pre @ [p]) = tracking_id_after pats pre"
  using assms scan_current_group_nonempty[OF assms(1), of pats]
  by (auto simp: detect_invoice_page_groups_def scan_pages_append close_groups_def page_step_def
      tracking_id_after_def)

lemma detect_snoc_split:
  assumes "pre \<noteq> []" "page_found_id pats p \<noteq> None"
    "page_found_id pats p \<noteq> tracking_id_after pats pre"
  shows "detect_invoice_page_groups pats (pre @ [p]) =
           detect_invoice_page_groups pats pre @ [[length pre + 1]]"
    and "tracking_id_after pats (pre @ [p]) = page_found_id pats p"
  using assms scan_current_group_nonempty[OF assms(1), of pats]
  by (auto simp: detect_invoice_page_groups_def scan_pages_append close_groups_def page_step_def
      tracking_id_after_def)

lemma detect_run:
  assumes start: "pre = [] \<or> (page_found_id pats p \<noteq> None \<and> page_found_id pats p \<noteq> tracking_id_after pats pre)"
    and run: "\<forall>r \<in> set rs. page_found_id pats r = None \<or> page_found_id pats r = page_found_id pats p"
  shows "detect_invoice_page_groups pats (pre @ p # rs) =
           detect_invoice_page_groups pats pre @ [[length pre + 1 ..< length pre + 2 + length rs]]"
proof -
  let ?s0 = "scan_pages pats seg_init 1 pre"
  let ?s1 = "page_step ?s0 (1 + length pre) (page_found_id pats p)"
  have s1: "?s1 = \<lparr>grouped_invoices = detect_invoice_page_groups pats pre,
                   current_group = [length pre + 1],
                   current_tracking_id = page_found_id pats p\<rparr>"
  proof (cases "pre = []")
    case True
    then show ?thesis
      by (simp add: page_step_def seg_init_def detect_invoice_page_groups_def close_groups_def)
  next
    case False
    with start scan_current_group_nonempty[OF False, of pats] show ?thesis
      by (auto simp: page_step_def detect_invoice_page_groups_def close_groups_def
          tracking_id_after_def)
  qed
  have "scan_pages pats seg_init 1 (pre @ p # rs) = scan_pages pats ?s1 (Suc (1 + length pre)) rs"
    by (simp add: scan_pages_append)
  also have "\<dots> = ?s1\<lparr>current_group := current_group ?s1 @ [Suc (1 + length pre)..<Suc (1 + length pre) + length rs]\<rparr>"
  proof (rule scan_pages_run)
    show "1 < Suc (1 + length pre)" by simp
    show "\<forall>r\<in>set rs. page_found_id pats r = None \<or> page_found_id pats r = current_tracking_id ?s1"
      unfolding s1 using run by simp
  qed
  finally have fin: "scan_pages pats seg_init 1 (pre @ p # rs) =
      \<lparr>grouped_invoices = detect_invoice_page_groups pats pre,
       current_group = [length pre + 1] @ [Suc (1 + length pre)..<Suc (1 + length pre) + length rs],
       current_tracking_id = page_found_id pats p\<rparr>"
    unfolding s1 by simp
  have "[length pre + 1 ..< length pre + 2 + length rs] =
        (length pre + 1) # [Suc (length pre + 1)..<length pre + 2 + length rs]"
    by (rule upt_conv_Cons) simp
  moreover have "Suc (length pre + 1) = Suc (1 + length pre)"
    "length pre + 2 + length rs = Suc (1 + length pre) + length rs" by simp_all
  ultimately have "[length pre + 1 ..< length pre + 2 + length rs] =
        [length pre + 1] @ [Suc (1 + length pre)..<Suc (1 + length pre) + length rs]"
    by (simp only: append_Cons append_Nil)
  then show ?thesis
    unfolding detect_invoice_page_groups_def[of pats "pre @ p # rs"] fin close_groups_def by simp
qed

text \<open>
  Claim C2. The segmenter as a state machine over the detected ids. The first page opens
  the first group and sets the tracking id. A later page with no id, or with the tracking
  id, is added to the current (last) group and leaves the tracking id unchanged. A later
  page whose id is present and differs from the tracking id closes the current group,
  opens a new group holding that page, and becomes the tracking id. Hence a page that
  opens a group, followed by a run of pages that each carry the same id or none, forms
  one group. For five pages with ids \<open>100, None, 100, 200, None\<close> the result is
  \<open>((1,2,3),(4,5))\<close>.
\<close>

theorem segmenter_state_machine:
  "(detect_invoice_page_groups pats [p] = [[1]] \<and>
    tracking_id_after pats [p] = page_found_id pats p) \<and>
   (pre \<noteq> [] \<and>
    (page_found_id pats p = None \<or> page_found_id pats p = tracking_id_after pats pre) \<longrightarrow>
      detect_invoice_page_groups pats (pre @ [p]) =
        butlast (detect_invoice_page_groups pats pre) @
        [last (detect_invoice_page_groups pats pre) @ [length pre + 1]] \<and>
      tracking_id_after pats (pre @ [p]) = tracking_id_after pats pre) \<and>
   (pre \<noteq> [] \<and> page_found_id pats p \<noteq> None \<and>
    page_found_id pats p \<noteq> tracking_id_after pats pre \<longrightarrow>
      detect_invoice_page_groups pats (pre @ [p]) =
        detect_invoice_page_groups pats pre @ [[length pre + 1]] \<and>
      tracking_id_after pats (pre @ [p]) = page_found_id pats p) \<and>
   ((pre = [] \<or> (page_found_id pats p \<noteq> None \<and>
                  page_found_id pats p \<noteq> tracking_id_after pats pre)) \<and>
    (\<forall>r \<in> set rs. page_found_id pats r = None \<or> page_found_id pats r = page_found_id pats p) \<longrightarrow>
      detect_invoice_page_groups pats (pre @ p # rs) =
        detect_invoice_page_groups pats pre @
        [[length pre + 1 ..< length pre + 2 + length rs]]) \<and>
   detect_invoice_page_groups [\<lambda>t. if t = [] then None else Some t]
     [Some (ustr ''100''), None, Some (ustr ''100''), Some (ustr ''200''), None]
     = [[1, 2, 3], [4, 5]]"
proof (intro conjI impI)
  show "detect_invoice_page_groups pats [p] = [[1]]"
    by (simp add: detect_invoice_page_groups_def close_groups_def seg_init_def page_step_def)
  show "tracking_id_after pats [p] = page_found_id pats p"
    by (simp add: tracking_id_after_def seg_init_def page_step_def)
next
  assume h: "pre \<noteq> [] \<and>
    (page_found_id pats p = None \<or> page_found_id pats p = tracking_id_after pats pre)"
  then show "detect_invoice_page_groups pats (pre @ [p]) =
        butlast (detect_invoice_page_groups pats pre) @
        [last (detect_invoice_page_groups pats pre) @ [length pre + 1]]"
    by (intro detect_snoc_continue) simp_all
  from h show "tracking_id_after pats (pre @ [p]) = tracking_id_after pats pre"
    by (intro detect_snoc_continue) simp_all
next
  assume h: "pre \<noteq> [] \<and> page_found_id pats p \<noteq> None \<and>
    page_found_id pats p \<noteq> tracking_id_after pats pre"
  then show "detect_invoice_page_groups pats (pre @ [p]) =
        detect_invoice_page_groups pats pre @ [[length pre + 1]]"
    by (intro detect_snoc_split) simp_all
  from h show "tracking_id_after pats (pre @ [p]) = page_found_id pats p"
    by (intro detect_snoc_split) simp_all
next
  assume "(pre = [] \<or> (page_found_id pats p \<noteq> None \<and>
                  page_found_id pats p \<noteq> tracking_id_after pats pre)) \<and>
    (\<forall>r \<in> set rs. page_found_id pats r = None \<or> page_found_id pats r = page_found_id pats p)"
  then show "detect_invoice_page_groups pats (pre @ p # rs) =
        detect_invoice_page_groups pats pre @
        [[length pre + 1 ..< length pre + 2 + length rs]]"
    by (intro detect_run) simp_all
next
  show "detect_invoice_page_groups [\<lambda>t. if t = [] then None else Some t]
     [Some (ustr ''100''), None, Some (ustr ''100''), Some (ustr ''200''), None]
     = [[1, 2, 3], [4, 5]]"
    by (simp add: detect_invoice_page_groups_def close_groups_def seg_init_def page_step_def
      page_found_id_def py_strip_def py_lstrip_def py_rstrip_def py_isspace_def replace_char_def ustr_def)
qed

theorem segmenter_state_machine_witness:
  "[Some (ustr ''100''), None] \<noteq> [] \<and>
   page_found_id [\<lambda>t. if t = [] then None else Some t] (Some (ustr ''200'')) \<noteq> None \<and>
   page_found_id [\<lambda>t. if t = [] then None else Some t] (Some (ustr ''200'')) \<noteq>
     tracking_id_after [\<lambda>t. if t = [] then None else Some t] [Some (ustr ''100''), None] \<and>
   list_all (\<lambda>r. page_found_id [\<lambda>t. if t = [] then None else Some t] r = None \<or>
      page_found_id [\<lambda>t. if t = [] then None else Some t] r =
      page_found_id [\<lambda>t. if t = [] then None else Some t] (Some (ustr ''200'')))
     [None, Some (ustr ''200'')] \<and>
   detect_invoice_page_groups [\<lambda>t. if t = [] then None else Some t]
     ([Some (ustr ''100''), None] @ Some (ustr ''200'') # [None, Some (ustr ''200'')])
     = [[1, 2], [3, 4, 5]] \<and>
   detect_invoice_page_groups [\<lambda>t. if t = [] then None else Some t]
     ([Some (ustr ''100''), None] @ [Some (ustr ''200'')]) = [[1, 2], [3]] \<and>
   detect_invoice_page_groups [\<lambda>t. if t = [] then None else Some t]
     ([Some (ustr ''100'')] @ [None]) = [[1, 2]]"
proof -
  let ?pats = "[\<lambda>t::ustr. if t = [] then None else Some t]"
  have ev: "page_found_id ?pats (Some (ustr ''200'')) = Some (ustr ''200'')"
    "page_found_id ?pats (Some (ustr ''100'')) = Some (ustr ''100'')"
    "page_found_id ?pats None = None"
    by (simp_all add: page_found_id_def py_strip_def py_lstrip_def py_rstrip_def py_isspace_def
        replace_char_def ustr_def)
  have tr: "tracking_id_after ?pats [Some (ustr ''100''), None] = Some (ustr ''100'')"
    "tracking_id_after ?pats [Some (ustr ''100'')] = Some (ustr ''100'')"
    by (simp_all add: tracking_id_after_def seg_init_def page_step_def ev)
  have d: "detect_invoice_page_groups ?pats [Some (ustr ''100''), None] = [[1, 2]]"
    "detect_invoice_page_groups ?pats [Some (ustr ''100'')] = [[1]]"
    by (simp_all add: detect_invoice_page_groups_def close_groups_def seg_init_def page_step_def ev)
  have ne: "ustr ''200'' \<noteq> ustr ''100''" by (simp add: ustr_def)
  from segmenter_state_machine[of ?pats "Some (ustr ''200'')" "[Some (ustr ''100''), None]"
      "[None, Some (ustr ''200'')]"]
  have "detect_invoice_page_groups ?pats
     ([Some (ustr ''100''), None] @ Some (ustr ''200'') # [None, Some (ustr ''200'')])
     = [[1, 2], [3, 4, 5]]"
     and "detect_invoice_page_groups ?pats
     ([Some (ustr ''100''), None] @ [Some (ustr ''200'')]) = [[1, 2], [3]]"
    using ne by (simp_all add: ev tr d upt_rec)
  moreover from segmenter_state_machine[of ?pats None "[Some (ustr ''100'')]" "[]"]
  have "detect_invoice_page_groups ?pats ([Some (ustr ''100'')] @ [None]) = [[1, 2]]"
    by (simp add: ev tr d)
  ultimately show ?thesis using ne by (simp add: ev tr)
qed

section \<open>Properties of the record normalizer\<close>

lemma digitpart_tail_digits:
  assumes "\<forall>c \<in> set ds. is_digit c" "r = [] \<or> (\<not> is_digit (hd r) \<and> hd r \<noteq> 95)"
  shows "digitpart_tail (ds @ r) = (map digit_val ds, r)"
  using assms
proof (induction ds)
  case Nil
  then show ?case by (cases r rule: digitpart_tail.cases) auto
next
  case (Cons d ds)
  then have IH: "digitpart_tail (ds @ r) = (map digit_val ds, r)" and d: "is_digit d" by auto
  show ?case
  proof (cases "ds @ r")
    case Nil
    then show ?thesis using d by simp
  next
    case (Cons x xs)
    then have "digitpart_tail ((d # ds) @ r) = (case digitpart_tail (ds @ r) of (ds', r') \<Rightarrow> (digit_val d # ds', r'))"
      using d by simp
    then show ?thesis using IH by simp
  qed
qed

lemma digitpart_digits:
  assumes "\<forall>c \<in> set ds. is_digit c" "ds \<noteq> []" "r = [] \<or> (\<not> is_digit (hd r) \<and> hd r \<noteq> 95)"
  shows "digitpart (ds @ r) = Some (map digit_val ds, r)"
proof -
  obtain d ds' where ds: "ds = d # ds'" using assms(2) by (cases ds) auto
  then have "digitpart_tail (ds' @ r) = (map digit_val ds', r)"
    using assms by (intro digitpart_tail_digits) auto
  then show ?thesis using ds assms(1) by (simp add: digitpart_def)
qed

lemma digitpart_no_digit: "s = [] \<or> \<not> is_digit (hd s) \<Longrightarrow> digitpart s = None"
  by (cases s) (auto simp: digitpart_def)

lemma parse_number_decimal:
  assumes "\<forall>c \<in> set ip. is_digit c" "\<forall>c \<in> set fp. is_digit c" "ip @ fp \<noteq> []"
  shows "parse_number (ip @ [46] @ fp) = Some (map digit_val ip, map digit_val fp, [])"
proof (cases "ip = []")
  case True
  then have fp: "fp \<noteq> []" using assms(3) by simp
  have "digitpart (46 # fp) = None" by (simp add: digitpart_def is_digit_def)
  moreover have "digitpart (fp @ []) = Some (map digit_val fp, [])"
    using assms(2) fp by (intro digitpart_digits) auto
  ultimately show ?thesis using True by (simp add: parse_number_def)
next
  case False
  have a: "digitpart (ip @ 46 # fp) = Some (map digit_val ip, 46 # fp)"
    using assms(1) False by (intro digitpart_digits) (auto simp: is_digit_def)
  show ?thesis
  proof (cases "fp = []")
    case True
    then show ?thesis using a by (simp add: parse_number_def digitpart_def)
  next
    case fpne: False
    have "digitpart (fp @ []) = Some (map digit_val fp, [])"
      using assms(2) fpne by (intro digitpart_digits) auto
    then show ?thesis using a by (simp add: parse_number_def)
  qed
qed

lemma parse_number_integer:
  assumes "\<forall>c \<in> set ip. is_digit c" "ip \<noteq> []"
  shows "parse_number ip = Some (map digit_val ip, [], [])"
proof -
  have "digitpart (ip @ []) = Some (map digit_val ip, [])"
    using assms by (intro digitpart_digits) auto
  then show ?thesis by (simp add: parse_number_def)
qed

text \<open>A string of digits and points is not changed by strip, has no sign, is not inf or nan.\<close>

lemma is_digit_not_space: "is_digit c \<or> c = 46 \<Longrightarrow> \<not> py_isspace c"
  by (auto simp: is_digit_def py_isspace_def)

lemma py_strip_id:
  assumes "s \<noteq> []" "\<not> py_isspace (hd s)" "\<not> py_isspace (last s)"
  shows "py_strip s = s"
proof -
  obtain c cs where s: "s = c # cs" using assms(1) by (cases s) auto
  then have l: "py_lstrip s = s" using assms(2) by (simp add: py_lstrip_def)
  have "hd (rev s) = last s" using assms(1) by (simp add: hd_rev)
  then have "\<not> py_isspace (hd (rev s))" using assms(3) by simp
  moreover have "rev s \<noteq> []" using assms(1) by simp
  ultimately have "dropWhile py_isspace (rev s) = rev s" by (cases "rev s") auto
  then show ?thesis by (simp add: py_strip_def l py_rstrip_def)
qed

lemma py_float_plain:
  assumes "\<forall>c \<in> set s. is_digit c \<or> c = 46" "s \<noteq> []"
  shows "py_float s = parse_abs_float s"
proof -
  have "hd s \<in> set s" "last s \<in> set s" using assms(2) by simp_all
  then have h: "is_digit (hd s) \<or> hd s = 46" and l: "is_digit (last s) \<or> last s = 46"
    using assms(1) by blast+
  have "py_strip s = s"
    using assms(2) is_digit_not_space[OF h] is_digit_not_space[OF l] by (rule py_strip_id)
  moreover obtain c cs where s: "s = c # cs" using assms(2) by (cases s) auto
  moreover have "c \<noteq> 45" "c \<noteq> 43" using h s by (auto simp: is_digit_def)
  ultimately show ?thesis by (simp add: py_float_def)
qed

lemma parse_abs_float_plain:
  assumes "\<forall>c \<in> set s. is_digit c \<or> c = 46"
  shows "parse_abs_float s =
     (case parse_number s of None \<Rightarrow> None
      | Some (ip, fp, r) \<Rightarrow>
         (case parse_exponent r of None \<Rightarrow> None
          | Some e \<Rightarrow> Some (Finite (scale10 (of_nat (dec ip) + of_nat (dec fp) / 10 ^ length fp) e))))"
proof -
  have "map ascii_lower s = s"
    using assms by (intro map_idI) (auto simp: ascii_lower_def is_digit_def)
  moreover have "s \<noteq> ustr ''inf''" "s \<noteq> ustr ''infinity''" "s \<noteq> ustr ''nan''"
    using assms by (auto simp: ustr_def is_digit_def)
  ultimately show ?thesis by (simp add: parse_abs_float_def)
qed

lemma py_float_decimal:
  assumes "\<forall>c \<in> set ip. is_digit c" "\<forall>c \<in> set fp. is_digit c" "ip @ fp \<noteq> []"
  shows "py_float (ip @ [46] @ fp) =
     Some (Finite (of_nat (dec (map digit_val ip)) + of_nat (dec (map digit_val fp)) / 10 ^ length fp))"
proof -
  have a: "\<forall>c \<in> set (ip @ [46] @ fp). is_digit c \<or> c = 46" using assms by auto
  have "py_float (ip @ [46] @ fp) = parse_abs_float (ip @ [46] @ fp)"
    using a by (rule py_float_plain) simp
  also have "\<dots> = Some (Finite (scale10 (of_nat (dec (map digit_val ip)) + of_nat (dec (map digit_val fp)) / 10 ^ length fp) 0))"
    unfolding parse_abs_float_plain[OF a] parse_number_decimal[OF assms]
    by (simp add: parse_exponent_def)
  finally show ?thesis by (simp add: scale10_def)
qed

lemma py_float_integer:
  assumes "\<forall>c \<in> set ip. is_digit c" "ip \<noteq> []"
  shows "py_float ip = Some (Finite (of_nat (dec (map digit_val ip))))"
proof -
  have a: "\<forall>c \<in> set ip. is_digit c \<or> c = 46" using assms by auto
  have "py_float ip = parse_abs_float ip" using a assms(2) by (rule py_float_plain)
  also have "\<dots> = Some (Finite (scale10 (of_nat (dec (map digit_val ip))) 0))"
    unfolding parse_abs_float_plain[OF a] parse_number_integer[OF assms]
    by (simp add: parse_exponent_def dec_def)
  finally show ?thesis by (simp add: scale10_def)
qed

lemma pca_unfold:
  "parse_currency_amount (Some a) =
     (if a = [] then None
          else
            (let cleaned = strip_currency a;
                 cleaned =
                   (if 44 \<in> set cleaned \<and> 46 \<in> set cleaned then
                      (if rfind 44 cleaned > rfind 46 cleaned then
                         replace_char 44 46 (remove_char 46 cleaned)
                       else remove_char 44 cleaned)
                    else if 44 \<in> set cleaned then
                      (if length (after_last 44 cleaned) = 2 then replace_char 44 46 cleaned
                       else remove_char 44 cleaned)
                    else cleaned)
             in py_float cleaned))"
  by (simp add: parse_currency_amount_def)

lemma takeWhile_neq_append:
  "c \<notin> set ys \<Longrightarrow> takeWhile (\<lambda>x. x \<noteq> c) (ys @ zs) = ys @ takeWhile (\<lambda>x. x \<noteq> c) zs"
  by (induction ys) auto

lemma rfind_last:
  assumes "c \<notin> set ys"
  shows "rfind c (xs @ [c] @ ys) = int (length xs)"
proof -
  have "takeWhile (\<lambda>x. x \<noteq> c) (rev ys @ c # rev xs) = rev ys"
    using assms by (simp add: takeWhile_neq_append)
  then show ?thesis by (simp add: rfind_def)
qed

lemma rfind_before:
  assumes "c \<notin> set ys" "c \<in> set xs"
  shows "rfind c (xs @ ys) < int (length xs)"
proof -
  have "takeWhile (\<lambda>x. x \<noteq> c) (rev ys @ rev xs) = rev ys @ takeWhile (\<lambda>x. x \<noteq> c) (rev xs)"
    using assms(1) by (simp add: takeWhile_neq_append)
  then show ?thesis using assms(2) by (simp add: rfind_def)
qed

lemma remove_sep_digits:
  assumes "\<forall>c \<in> set w. is_digit c \<or> c = sep" "\<not> is_digit sep"
  shows "remove_char sep w = filter is_digit w"
  unfolding remove_char_def using assms by (intro filter_cong) auto

lemma remove_char_id: "c \<notin> set s \<Longrightarrow> remove_char c s = s"
  by (auto simp: remove_char_def filter_id_conv)

lemma replace_char_id: "c \<notin> set s \<Longrightarrow> replace_char c d s = s"
  unfolding replace_char_def by (intro map_idI) auto

lemma after_last_split: "c \<notin> set ys \<Longrightarrow> after_last c (xs @ [c] @ ys) = ys"
  by (simp add: after_last_def takeWhile_neq_append)

lemma pca_both:
  assumes cl: "strip_currency a = whole @ [sep2] @ decs"
    and seps: "(sep1 = 44 \<and> sep2 = 46) \<or> (sep1 = 46 \<and> sep2 = 44)"
    and s1: "sep1 \<in> set whole"
    and w: "\<forall>c \<in> set whole. is_digit c \<or> c = sep1"
    and f: "\<forall>c \<in> set decs. is_digit c"
    and ne: "filter is_digit whole @ decs \<noteq> []"
  shows "parse_currency_amount (Some a) =
     Some (Finite (of_nat (dec (map digit_val (filter is_digit whole))) +
                   of_nat (dec (map digit_val decs)) / 10 ^ length decs))"
proof -
  let ?cl = "whole @ [sep2] @ decs"
  have nd: "\<not> is_digit sep1" "\<not> is_digit sep2" using seps by (auto simp: is_digit_def)
  have s2f: "sep2 \<notin> set decs" "sep1 \<notin> set decs" using f nd by auto
  have s2w: "sep2 \<notin> set whole" using w nd seps by auto
  have ane: "a \<noteq> []" using cl by (auto simp: strip_currency_def)
  have both: "44 \<in> set ?cl \<and> 46 \<in> set ?cl" using seps s1 by auto
  have r2: "rfind sep2 ?cl = int (length whole)" using s2f(1) by (rule rfind_last)
  have "rfind sep1 (whole @ ([sep2] @ decs)) < int (length whole)"
    using s1 s2f(2) seps by (intro rfind_before) auto
  then have r1: "rfind sep1 ?cl < rfind sep2 ?cl" using r2 by simp
  have rmw: "remove_char sep1 whole = filter is_digit whole" using w nd(1) by (rule remove_sep_digits)
  have rmf: "remove_char sep1 decs = decs" using s2f(2) by (rule remove_char_id)
  have rm: "remove_char sep1 ?cl = filter is_digit whole @ [sep2] @ decs"
    using rmw rmf seps by (auto simp: remove_char_def)
  have dg: "\<forall>c \<in> set (filter is_digit whole). is_digit c" by simp
  have val: "py_float (filter is_digit whole @ [46] @ decs) =
     Some (Finite (of_nat (dec (map digit_val (filter is_digit whole))) +
                   of_nat (dec (map digit_val decs)) / 10 ^ length decs))"
    using dg f ne by (rule py_float_decimal)
  from seps show ?thesis
  proof
    assume h: "sep1 = 44 \<and> sep2 = 46"
    then have "\<not> rfind 44 ?cl > rfind 46 ?cl" using r1 by simp
    then show ?thesis using both ane h rm val unfolding pca_unfold cl by (simp add: Let_def)
  next
    assume h: "sep1 = 46 \<and> sep2 = 44"
    then have gt: "rfind 44 ?cl > rfind 46 ?cl" using r1 by simp
    have "46 \<notin> set (filter is_digit whole)" "46 \<notin> set decs" 
      using h s2f by (auto simp: is_digit_def)
    have "replace_char 44 46 (filter is_digit whole @ [44] @ decs) = filter is_digit whole @ [46] @ decs"
      using h s2f(1) by (simp add: replace_char_def is_digit_def)
         (intro conjI map_idI; auto simp: is_digit_def)
    then show ?thesis using both ane h rm val gt unfolding pca_unfold cl by (simp add: Let_def)
  qed
qed

lemma pca_comma_decimal:
  assumes cl: "strip_currency a = whole @ [44] @ decs"
    and w: "\<forall>c \<in> set whole. is_digit c"
    and f: "\<forall>c \<in> set decs. is_digit c"
    and two: "length decs = 2"
  shows "parse_currency_amount (Some a) =
     Some (Finite (of_nat (dec (map digit_val whole)) +
                   of_nat (dec (map digit_val decs)) / 10 ^ length decs))"
proof -
  let ?cl = "whole @ [44] @ decs"
  have nf: "44 \<notin> set decs" "46 \<notin> set decs" "44 \<notin> set whole" "46 \<notin> set whole"
    using w f by (auto simp: is_digit_def)
  have ane: "a \<noteq> []" using cl by (auto simp: strip_currency_def)
  have nodot: "46 \<notin> set ?cl" using nf by simp
  have al: "after_last 44 ?cl = decs" using nf(1) by (rule after_last_split)
  have rp: "replace_char 44 46 ?cl = whole @ [46] @ decs"
    using replace_char_id[OF nf(3), of 46] replace_char_id[OF nf(1), of 46]
    by (simp add: replace_char_def)
  have "whole @ decs \<noteq> []" using two by auto
  then have val: "py_float (whole @ [46] @ decs) =
     Some (Finite (of_nat (dec (map digit_val whole)) +
                   of_nat (dec (map digit_val decs)) / 10 ^ length decs))"
    using w f by (intro py_float_decimal)
  show ?thesis using ane nodot al rp two val unfolding pca_unfold cl by (simp add: Let_def)
qed

lemma pca_comma_thousands:
  assumes cl: "strip_currency a = s"
    and c: "44 \<in> set s"
    and w: "\<forall>c \<in> set s. is_digit c \<or> c = 44"
    and two: "length (after_last 44 s) \<noteq> 2"
    and ne: "filter is_digit s \<noteq> []"
  shows "parse_currency_amount (Some a) =
     Some (Finite (of_nat (dec (map digit_val (filter is_digit s)))))"
proof -
  have ane: "a \<noteq> []" using cl c by (auto simp: strip_currency_def)
  have nodot: "46 \<notin> set s" using w by (auto simp: is_digit_def)
  have rm: "remove_char 44 s = filter is_digit s"
    using w by (rule remove_sep_digits) (simp add: is_digit_def)
  have "py_float (filter is_digit s) = Some (Finite (of_nat (dec (map digit_val (filter is_digit s)))))"
    using ne by (intro py_float_integer) auto
  then show ?thesis using ane nodot c two rm unfolding pca_unfold cl by (simp add: Let_def)
qed

lemmas float_eval = parse_currency_amount_def strip_currency_def is_currency_or_space_def
  py_isspace_def rfind_def
  after_last_def replace_char_def remove_char_def py_float_def py_strip_def py_lstrip_def
  py_rstrip_def parse_abs_float_def parse_number_def parse_exponent_def digitpart_def
  is_digit_def digit_val_def dec_def scale10_def ascii_lower_def negate_def ustr_def

text \<open>
  Claim C6. \<open>_parse_currency_amount\<close> returns \<open>None\<close> for a missing or empty input and
  for an input that \<open>float\<close> cannot parse. It removes currency symbols and whitespace.
  When the cleaned text holds both separators, the last one is the decimal separator and
  the other one is dropped as a thousands separator. When it holds only commas, a single
  comma followed by exactly two digits is the decimal separator, and commas not followed
  by a two-digit final group are dropped as thousands separators. In particular
  \<open>"$1,234.56"\<close>, \<open>"\<euro>1.234,56"\<close> and \<open>"1,234.56"\<close> all give \<open>1234.56\<close>.
\<close>

theorem parse_currency_amount_correct:
  "parse_currency_amount None = None \<and>
   parse_currency_amount (Some []) = None \<and>
   (strip_currency a1 = whole1 @ [sep2] @ decs1 \<and>
    ((sep1 = 44 \<and> sep2 = 46) \<or> (sep1 = 46 \<and> sep2 = 44)) \<and>
    sep1 \<in> set whole1 \<and> (\<forall>c \<in> set whole1. is_digit c \<or> c = sep1) \<and>
    (\<forall>c \<in> set decs1. is_digit c) \<and> filter is_digit whole1 @ decs1 \<noteq> [] \<longrightarrow>
      parse_currency_amount (Some a1) =
        Some (Finite (of_nat (dec (map digit_val (filter is_digit whole1))) +
                      of_nat (dec (map digit_val decs1)) / 10 ^ length decs1))) \<and>
   (strip_currency a2 = whole2 @ [44] @ decs2 \<and>
    (\<forall>c \<in> set whole2. is_digit c) \<and> (\<forall>c \<in> set decs2. is_digit c) \<and> length decs2 = 2 \<longrightarrow>
      parse_currency_amount (Some a2) =
        Some (Finite (of_nat (dec (map digit_val whole2)) +
                      of_nat (dec (map digit_val decs2)) / 10 ^ length decs2))) \<and>
   (44 \<in> set (strip_currency a3) \<and> (\<forall>c \<in> set (strip_currency a3). is_digit c \<or> c = 44) \<and>
    length (after_last 44 (strip_currency a3)) \<noteq> 2 \<and>
    filter is_digit (strip_currency a3) \<noteq> [] \<longrightarrow>
      parse_currency_amount (Some a3) =
        Some (Finite (of_nat (dec (map digit_val (filter is_digit (strip_currency a3))))))) \<and>
   parse_currency_amount (Some (ustr ''$1,234.56'')) = Some (Finite (123456 / 100)) \<and>
   parse_currency_amount (Some (8364 # ustr ''1.234,56'')) = Some (Finite (123456 / 100)) \<and>
   parse_currency_amount (Some (ustr ''1,234.56'')) = Some (Finite (123456 / 100)) \<and>
   parse_currency_amount (Some (ustr ''N/A'')) = None"
proof (intro conjI impI)
  show "parse_currency_amount None = None" by (simp add: parse_currency_amount_def)
  show "parse_currency_amount (Some []) = None" by (simp add: parse_currency_amount_def)
  show "parse_currency_amount (Some (ustr ''$1,234.56'')) = Some (Finite (123456 / 100))"
    by (simp add: float_eval)
  show "parse_currency_amount (Some (8364 # ustr ''1.234,56'')) = Some (Finite (123456 / 100))"
    by (simp add: float_eval)
  show "parse_currency_amount (Some (ustr ''1,234.56'')) = Some (Finite (123456 / 100))"
    by (simp add: float_eval)
  show "parse_currency_amount (Some (ustr ''N/A'')) = None"
    by (simp add: float_eval)
next
  assume "strip_currency a1 = whole1 @ [sep2] @ decs1 \<and>
    ((sep1 = 44 \<and> sep2 = 46) \<or> (sep1 = 46 \<and> sep2 = 44)) \<and>
    sep1 \<in> set whole1 \<and> (\<forall>c \<in> set whole1. is_digit c \<or> c = sep1) \<and>
    (\<forall>c \<in> set decs1. is_digit c) \<and> filter is_digit whole1 @ decs1 \<noteq> []"
  then show "parse_currency_amount (Some a1) =
        Some (Finite (of_nat (dec (map digit_val (filter is_digit whole1))) +
                      of_nat (dec (map digit_val decs1)) / 10 ^ length decs1))"
    by (intro pca_both[where ?sep1.0 = sep1 and ?sep2.0 = sep2]) simp_all
next
  assume "strip_currency a2 = whole2 @ [44] @ decs2 \<and>
    (\<forall>c \<in> set whole2. is_digit c) \<and> (\<forall>c \<in> set decs2. is_digit c) \<and> length decs2 = 2"
  then show "parse_currency_amount (Some a2) =
        Some (Finite (of_nat (dec (map digit_val whole2)) +
                      of_nat (dec (map digit_val decs2)) / 10 ^ length decs2))"
    by (intro pca_comma_decimal) simp_all
next
  assume "44 \<in> set (strip_currency a3) \<and> (\<forall>c \<in> set (strip_currency a3). is_digit c \<or> c = 44) \<and>
    length (after_last 44 (strip_currency a3)) \<noteq> 2 \<and>
    filter is_digit (strip_currency a3) \<noteq> []"
  then show "parse_currency_amount (Some a3) =
        Some (Finite (of_nat (dec (map digit_val (filter is_digit (strip_currency a3))))))"
    by (intro pca_comma_thousands) simp_all
qed

theorem parse_currency_amount_correct_witness:
  "strip_currency (ustr ''$ 9.876,5'') = ustr ''9'' @ [46] @ ustr ''876'' @ [44] @ ustr ''5'' \<and>
   parse_currency_amount (Some (ustr ''$ 9.876,5'')) = Some (Finite (98765 / 10)) \<and>
   strip_currency (163 # ustr ''12,34'') = ustr ''12'' @ [44] @ ustr ''34'' \<and>
   parse_currency_amount (Some (163 # ustr ''12,34'')) = Some (Finite (1234 / 100)) \<and>
   strip_currency (ustr ''1,234'') = ustr ''1,234'' \<and>
   parse_currency_amount (Some (ustr ''1,234'')) = Some (Finite 1234)"
proof -
  have h1: "strip_currency (ustr ''$ 9.876,5'') = ustr ''9.876'' @ [44] @ ustr ''5''"
    by (simp add: float_eval)
  have h2: "strip_currency (163 # ustr ''12,34'') = ustr ''12'' @ [44] @ ustr ''34''"
    by (simp add: float_eval)
  have h3: "strip_currency (ustr ''1,234'') = ustr ''1,234''"
    by (simp add: float_eval)
  have g1: "sep1 = 46 \<and> sep2 = 44 \<Longrightarrow> sep1 \<in> set (ustr ''9.876'') \<and>
      (\<forall>c \<in> set (ustr ''9.876''). is_digit c \<or> c = sep1) \<and>
      (\<forall>c \<in> set (ustr ''5''). is_digit c) \<and>
      filter is_digit (ustr ''9.876'') @ ustr ''5'' \<noteq> []" for sep1 sep2 :: nat
    by (simp add: ustr_def is_digit_def)
  have g2: "(\<forall>c \<in> set (ustr ''12''). is_digit c) \<and> (\<forall>c \<in> set (ustr ''34''). is_digit c) \<and>
      length (ustr ''34'') = 2"
    by (simp add: ustr_def is_digit_def)
  have g3: "44 \<in> set (ustr ''1,234'') \<and> (\<forall>c \<in> set (ustr ''1,234''). is_digit c \<or> c = 44) \<and>
      length (after_last 44 (ustr ''1,234'')) \<noteq> 2 \<and> filter is_digit (ustr ''1,234'') \<noteq> []"
    by (simp add: ustr_def is_digit_def after_last_def)
  from parse_currency_amount_correct[of "ustr ''$ 9.876,5''" "ustr ''9.876''" 44 "ustr ''5''" 46
      "163 # ustr ''12,34''" "ustr ''12''" "ustr ''34''" "ustr ''1,234''"]
  have "parse_currency_amount (Some (ustr ''$ 9.876,5'')) =
          Some (Finite (of_nat (dec (map digit_val (filter is_digit (ustr ''9.876'')))) +
                      of_nat (dec (map digit_val (ustr ''5''))) / 10 ^ length (ustr ''5'')))"
    and "parse_currency_amount (Some (163 # ustr ''12,34'')) =
          Some (Finite (of_nat (dec (map digit_val (ustr ''12''))) +
                      of_nat (dec (map digit_val (ustr ''34''))) / 10 ^ length (ustr ''34'')))"
    and "parse_currency_amount (Some (ustr ''1,234'')) =
          Some (Finite (of_nat (dec (map digit_val (filter is_digit (ustr ''1,234''))))))"
    using h1 h2 h3 g1[of 46 44] g2 g3 by simp_all
  then show ?thesis using h1 h2 h3
    by (simp add: ustr_def is_digit_def digit_val_def dec_def)
qed

text \<open>
  Claim C7. The claim says that the kept line items are numbered \<open>1, \<dots>, k\<close> after
  filtering. The code numbers a kept item by its position in the raw list
  (\<open>idx + 1\<close> of \<open>enumerate\<close>), so a dropped item leaves a gap: with a first raw item that
  has no description and a second one that is kept, the only record emitted carries
  line number 2.
\<close>

theorem line_number_is_raw_position:
  "build_line_items_records (\<lambda>d. Some (ustr ''Uncategorized'')) (Some (JStr (ustr ''Acme'')))
     [\<lparr>raw_quantity = None, raw_description = None, raw_unit = None, raw_unit_price = None,
       raw_line_total = Some (ustr ''5.00'')\<rparr>,
      \<lparr>raw_quantity = Some (ustr ''2''), raw_description = Some (ustr ''Widget''),
       raw_unit = Some (ustr ''EA''), raw_unit_price = Some (ustr ''$3.00''),
       raw_line_total = Some (ustr ''$6.00'')\<rparr>]
   = Inr [\<lparr>li_vendor_name = Some (JStr (ustr ''Acme'')), li_category = ustr ''Uncategorized'',
           li_quantity = Finite 2, li_unit = Some (ustr ''EA''),
           li_description = ustr ''Widget'', li_unit_price = Some (Finite 3),
           li_line_total = Some (Finite 6), li_line_number = 2\<rparr>]"
  by (simp add: build_line_items_records_def clean_quantity_def float_eval)

section \<open>Properties of phase-2 template validation\<close>

lemma check_fields_filter:
  "check_fields strict markers d ks e b =
     (e @ filter (\<lambda>k. case map_of d k of
                         Some (JStr v) \<Rightarrow> k \<in> set strict \<and> py_strip v = []
                       | _ \<Rightarrow> True) ks,
      b @ filter (\<lambda>k. case map_of d k of
                         Some (JStr v) \<Rightarrow>
                           py_strip v \<noteq> [] \<and> k \<notin> set markers \<and> count_capture_groups v < 1
                       | _ \<Rightarrow> False) ks)"
proof (induction ks arbitrary: e b)
  case Nil
  then show ?case by simp
next
  case (Cons k ks)
  show ?case
  proof (cases "map_of d k")
    case None
    then show ?thesis by (simp add: Cons.IH)
  next
    case (Some j)
    then show ?thesis by (cases j) (simp_all add: Cons.IH)
  qed
qed

lemma field_ok_filter:
  "field_ok strict markers d k \<longleftrightarrow>
     \<not> (case map_of d k of
           Some (JStr v) \<Rightarrow> k \<in> set strict \<and> py_strip v = []
         | _ \<Rightarrow> True) \<and>
     \<not> (case map_of d k of
           Some (JStr v) \<Rightarrow>
             py_strip v \<noteq> [] \<and> k \<notin> set markers \<and> count_capture_groups v < 1
         | _ \<Rightarrow> False)"
proof (cases "map_of d k")
  case None
  then show ?thesis by (simp add: field_ok_def)
next
  case (Some j)
  then show ?thesis by (cases j) (auto simp: field_ok_def)
qed

lemma check_fields_ok:
  "check_fields strict markers d ks [] [] = ([], []) \<longleftrightarrow>
     (\<forall>k \<in> set ks. field_ok strict markers d k)"
  unfolding check_fields_filter field_ok_filter
  by (simp add: filter_empty_conv) blast

lemma map_of_key: "map_of d k = Some v \<Longrightarrow> k \<in> set (map fst d)"
  using map_of_SomeD[of d k v] by (force simp: image_iff)

lemma field_ok_key:
  assumes "field_ok strict markers d k"
  shows "k \<in> set (map fst d)"
proof (cases "map_of d k")
  case None
  with assms show ?thesis by (simp add: field_ok_def)
next
  case (Some v)
  then show ?thesis by (rule map_of_key)
qed

lemma check_invoice_level_None:
  "check_invoice_level invoice = None \<longleftrightarrow>
     (\<forall>k \<in> set required_invoice_keys. field_ok strict_invoice_fields [] invoice k)"
proof -
  obtain e b where c: "check_fields strict_invoice_fields [] invoice required_invoice_keys [] [] = (e, b)"
    by (cases "check_fields strict_invoice_fields [] invoice required_invoice_keys [] []")
  have k: "(\<forall>k \<in> set required_invoice_keys. field_ok strict_invoice_fields [] invoice k) \<Longrightarrow>
      set required_invoice_keys \<subseteq> set (map fst invoice)"
    using field_ok_key by blast
  show ?thesis
    using check_fields_ok[of strict_invoice_fields "[]" invoice required_invoice_keys] c k
    by (auto simp: check_invoice_level_def)
qed

lemma check_line_item_level_None:
  "check_line_item_level line_item = None \<longleftrightarrow>
     (\<forall>k \<in> set required_line_item_keys. field_ok strict_line_fields marker_fields line_item k)"
proof -
  obtain e b where c: "check_fields strict_line_fields marker_fields line_item required_line_item_keys [] [] = (e, b)"
    by (cases "check_fields strict_line_fields marker_fields line_item required_line_item_keys [] []")
  have k: "(\<forall>k \<in> set required_line_item_keys. field_ok strict_line_fields marker_fields line_item k) \<Longrightarrow>
      set required_line_item_keys \<subseteq> set (map fst line_item)"
    using field_ok_key by blast
  show ?thesis
    using check_fields_ok[of strict_line_fields marker_fields line_item required_line_item_keys] c k
    by (auto simp: check_line_item_level_def)
qed

lemma check_invoice_level_error:
  "check_invoice_level invoice = Some e \<Longrightarrow> \<exists>m. e = Phase2ValidationError m"
  by (auto simp: check_invoice_level_def split: if_splits prod.splits)

lemma check_line_item_level_error:
  "check_line_item_level line_item = Some e \<Longrightarrow> \<exists>m. e = Phase2ValidationError m"
  by (auto simp: check_line_item_level_def split: if_splits prod.splits)

lemma get_object_Some: "get_object d k = Some obj \<longleftrightarrow> map_of d k = Some (JObj obj)"
  by (auto simp: get_object_def split: option.splits json.splits)

lemma phase2_validate_JObj:
  "phase2_validate (JObj toplevel) =
     (if \<not> set [key_invoice_level, key_line_item_level] \<subseteq> set (map fst toplevel) then
            Inl (Phase2ValidationError ''Missing top-level keys'')
          else
            (case map_of toplevel key_invoice_level of
               Some (JObj invoice) \<Rightarrow>
                 (case check_invoice_level invoice of
                    Some e \<Rightarrow> Inl e
                  | None \<Rightarrow>
                      (case map_of toplevel key_line_item_level of
                         Some (JObj line_item) \<Rightarrow>
                           (case check_line_item_level line_item of
                              Some e \<Rightarrow> Inl e
                            | None \<Rightarrow> Inr (JObj toplevel))
                       | _ \<Rightarrow>
                           Inl (Phase2ValidationError
                             ''line_item_level must be an object/dict.'')))
             | _ \<Rightarrow> Inl (Phase2ValidationError ''invoice_level must be an object/dict.'')))"
  by (simp add: phase2_validate_def)

lemma phase2_validate_object:
  "phase2_validate (JObj toplevel) = Inr (JObj toplevel) \<and> phase2_accepts (JObj toplevel) \<or>
   (\<exists>m. phase2_validate (JObj toplevel) = Inl (Phase2ValidationError m)) \<and>
   \<not> phase2_accepts (JObj toplevel)"
proof (cases "set [key_invoice_level, key_line_item_level] \<subseteq> set (map fst toplevel)")
  case False
  then have "phase2_validate (JObj toplevel) = Inl (Phase2ValidationError ''Missing top-level keys'')"
    by (simp add: phase2_validate_JObj)
  moreover have "\<not> phase2_accepts (JObj toplevel)"
  proof
    assume "phase2_accepts (JObj toplevel)"
    then obtain x y where "get_object toplevel key_invoice_level = Some x"
      "get_object toplevel key_line_item_level = Some y"
      by (cases "get_object toplevel key_invoice_level"; cases "get_object toplevel key_line_item_level")
         (simp_all add: phase2_accepts_def)
    then have m1: "map_of toplevel key_invoice_level = Some (JObj x)"
      and m2: "map_of toplevel key_line_item_level = Some (JObj y)"
      by (simp_all add: get_object_Some)
    have "key_invoice_level \<in> set (map fst toplevel)" "key_line_item_level \<in> set (map fst toplevel)"
      using map_of_key[OF m1] map_of_key[OF m2] by simp_all
    with False show False by simp
  qed
  ultimately show ?thesis by blast
next
  case kt: True
  have v0: "phase2_validate (JObj toplevel) =
            (case map_of toplevel key_invoice_level of
               Some (JObj invoice) \<Rightarrow>
                 (case check_invoice_level invoice of
                    Some e \<Rightarrow> Inl e
                  | None \<Rightarrow>
                      (case map_of toplevel key_line_item_level of
                         Some (JObj line_item) \<Rightarrow>
                           (case check_line_item_level line_item of
                              Some e \<Rightarrow> Inl e
                            | None \<Rightarrow> Inr (JObj toplevel))
                       | _ \<Rightarrow>
                           Inl (Phase2ValidationError
                             ''line_item_level must be an object/dict.'')))
             | _ \<Rightarrow> Inl (Phase2ValidationError ''invoice_level must be an object/dict.''))"
    unfolding phase2_validate_JObj using kt by simp
  show ?thesis
  proof (cases "\<exists>invoice. map_of toplevel key_invoice_level = Some (JObj invoice)")
    case False
    then have "phase2_validate (JObj toplevel) =
        Inl (Phase2ValidationError ''invoice_level must be an object/dict.'')"
      unfolding v0 by (cases "map_of toplevel key_invoice_level")
        (simp, rename_tac v, case_tac v, simp_all)
    moreover have "get_object toplevel key_invoice_level = None"
      using False get_object_Some[of toplevel key_invoice_level]
      by (cases "get_object toplevel key_invoice_level") auto
    then have "\<not> phase2_accepts (JObj toplevel)" by (simp add: phase2_accepts_def)
    ultimately show ?thesis by blast
  next
    case True
    then obtain invoice where i: "map_of toplevel key_invoice_level = Some (JObj invoice)" by blast
    then have gi: "get_object toplevel key_invoice_level = Some invoice"
      by (simp add: get_object_Some)
    have v1: "phase2_validate (JObj toplevel) =
                 (case check_invoice_level invoice of
                    Some e \<Rightarrow> Inl e
                  | None \<Rightarrow>
                      (case map_of toplevel key_line_item_level of
                         Some (JObj line_item) \<Rightarrow>
                           (case check_line_item_level line_item of
                              Some e \<Rightarrow> Inl e
                            | None \<Rightarrow> Inr (JObj toplevel))
                       | _ \<Rightarrow>
                           Inl (Phase2ValidationError
                             ''line_item_level must be an object/dict.'')))"
      unfolding v0 i by simp
    show ?thesis
    proof (cases "check_invoice_level invoice")
      case (Some e)
      then obtain m where "e = Phase2ValidationError m" using check_invoice_level_error by blast
      then have "phase2_validate (JObj toplevel) = Inl (Phase2ValidationError m)"
        unfolding v1 Some by simp
      moreover have "\<not> phase2_accepts (JObj toplevel)"
        using Some check_invoice_level_None[of invoice] gi
        by (cases "get_object toplevel key_line_item_level") (auto simp: phase2_accepts_def)
      ultimately show ?thesis by blast
    next
      case ci: None
      have v2: "phase2_validate (JObj toplevel) =
                      (case map_of toplevel key_line_item_level of
                         Some (JObj line_item) \<Rightarrow>
                           (case check_line_item_level line_item of
                              Some e \<Rightarrow> Inl e
                            | None \<Rightarrow> Inr (JObj toplevel))
                       | _ \<Rightarrow>
                           Inl (Phase2ValidationError
                             ''line_item_level must be an object/dict.''))"
        unfolding v1 ci by simp
      show ?thesis
      proof (cases "\<exists>line_item. map_of toplevel key_line_item_level = Some (JObj line_item)")
        case False
        then have "phase2_validate (JObj toplevel) =
            Inl (Phase2ValidationError ''line_item_level must be an object/dict.'')"
          unfolding v2 by (cases "map_of toplevel key_line_item_level")
            (simp, rename_tac v, case_tac v, simp_all)
        moreover have "get_object toplevel key_line_item_level = None"
          using False get_object_Some[of toplevel key_line_item_level]
          by (cases "get_object toplevel key_line_item_level") auto
        then have "\<not> phase2_accepts (JObj toplevel)" using gi by (simp add: phase2_accepts_def)
        ultimately show ?thesis by blast
      next
        case True
        then obtain line_item where l: "map_of toplevel key_line_item_level = Some (JObj line_item)"
          by blast
        then have gl: "get_object toplevel key_line_item_level = Some line_item"
          by (simp add: get_object_Some)
        have v3: "phase2_validate (JObj toplevel) =
                           (case check_line_item_level line_item of
                              Some e \<Rightarrow> Inl e
                            | None \<Rightarrow> Inr (JObj toplevel))"
          unfolding v2 l by simp
        have acc: "phase2_accepts (JObj toplevel) \<longleftrightarrow> check_line_item_level line_item = None"
          using gi gl ci
          by (simp add: phase2_accepts_def check_line_item_level_None[symmetric]
                check_invoice_level_None[symmetric])
        show ?thesis
        proof (cases "check_line_item_level line_item")
          case (Some e)
          then obtain m where "e = Phase2ValidationError m"
            using check_line_item_level_error by blast
          then have "phase2_validate (JObj toplevel) = Inl (Phase2ValidationError m)"
            unfolding v3 Some by simp
          then show ?thesis using acc Some by auto
        next
          case None
          then show ?thesis using acc unfolding v3 by simp
        qed
      qed
    qed
  qed
qed

lemma phase2_validate_not_object:
  "(\<forall>d. parsed \<noteq> JObj d) \<Longrightarrow> phase2_validate parsed = Inl Phase2ParseError \<and> \<not> phase2_accepts parsed"
  by (cases parsed) (simp_all add: phase2_validate_def phase2_accepts_def)

lemmas key_defs = key_invoice_level_def key_line_item_level_def key_invoice_number_def
  key_invoice_date_def key_invoice_total_amount_def key_order_date_def
  key_line_item_block_start_def key_line_item_block_end_def key_description_def
  key_quantity_def key_unit_def key_unit_price_def key_line_total_def

lemma keys_distinct:
  "distinct [key_invoice_number, key_invoice_date, key_invoice_total_amount, key_order_date]"
  "distinct [key_line_item_block_start, key_line_item_block_end, key_description, key_quantity,
      key_unit, key_unit_price, key_line_total]"
  "key_invoice_level \<noteq> key_line_item_level"
  by (simp_all add: key_defs ustr_def)

lemma strict_sets:
  "set strict_invoice_fields = set required_invoice_keys - {key_order_date}"
  "set strict_line_fields = set required_line_item_keys - {key_unit}"
  "set marker_fields = {key_line_item_block_start, key_line_item_block_end}"
  using keys_distinct
  by (auto simp: strict_invoice_fields_def required_invoice_keys_def strict_line_fields_def
      required_line_item_keys_def marker_fields_def)

lemma key_neqs:
  "key_invoice_number \<noteq> key_invoice_date"
  "key_invoice_number \<noteq> key_invoice_total_amount"
  "key_invoice_number \<noteq> key_order_date"
  "key_invoice_date \<noteq> key_invoice_number"
  "key_invoice_date \<noteq> key_invoice_total_amount"
  "key_invoice_date \<noteq> key_order_date"
  "key_invoice_total_amount \<noteq> key_invoice_number"
  "key_invoice_total_amount \<noteq> key_invoice_date"
  "key_invoice_total_amount \<noteq> key_order_date"
  "key_order_date \<noteq> key_invoice_number"
  "key_order_date \<noteq> key_invoice_date"
  "key_order_date \<noteq> key_invoice_total_amount"
  "key_line_item_block_start \<noteq> key_line_item_block_end"
  "key_line_item_block_start \<noteq> key_description"
  "key_line_item_block_start \<noteq> key_quantity"
  "key_line_item_block_start \<noteq> key_unit"
  "key_line_item_block_start \<noteq> key_unit_price"
  "key_line_item_block_start \<noteq> key_line_total"
  "key_line_item_block_end \<noteq> key_line_item_block_start"
  "key_line_item_block_end \<noteq> key_description"
  "key_line_item_block_end \<noteq> key_quantity"
  "key_line_item_block_end \<noteq> key_unit"
  "key_line_item_block_end \<noteq> key_unit_price"
  "key_line_item_block_end \<noteq> key_line_total"
  "key_description \<noteq> key_line_item_block_start"
  "key_description \<noteq> key_line_item_block_end"
  "key_description \<noteq> key_quantity"
  "key_description \<noteq> key_unit"
  "key_description \<noteq> key_unit_price"
  "key_description \<noteq> key_line_total"
  "key_quantity \<noteq> key_line_item_block_start"
  "key_quantity \<noteq> key_line_item_block_end"
  "key_quantity \<noteq> key_description"
  "key_quantity \<noteq> key_unit"
  "key_quantity \<noteq> key_unit_price"
  "key_quantity \<noteq> key_line_total"
  "key_unit \<noteq> key_line_item_block_start"
  "key_unit \<noteq> key_line_item_block_end"
  "key_unit \<noteq> key_description"
  "key_unit \<noteq> key_quantity"
  "key_unit \<noteq> key_unit_price"
  "key_unit \<noteq> key_line_total"
  "key_unit_price \<noteq> key_line_item_block_start"
  "key_unit_price \<noteq> key_line_item_block_end"
  "key_unit_price \<noteq> key_description"
  "key_unit_price \<noteq> key_quantity"
  "key_unit_price \<noteq> key_unit"
  "key_unit_price \<noteq> key_line_total"
  "key_line_total \<noteq> key_line_item_block_start"
  "key_line_total \<noteq> key_line_item_block_end"
  "key_line_total \<noteq> key_description"
  "key_line_total \<noteq> key_quantity"
  "key_line_total \<noteq> key_unit"
  "key_line_total \<noteq> key_unit_price"
  "key_invoice_level \<noteq> key_line_item_level"
  "key_line_item_level \<noteq> key_invoice_level"
  by (simp_all add: key_defs ustr_def)

lemma sample_pattern_facts:
  "py_strip (ustr ''Invoice No: ([0-9]+)'') \<noteq> []"
  "count_capture_groups (ustr ''Invoice No: ([0-9]+)'') = 1"
  "py_strip (ustr ''Date: ([0-9/]+)'') \<noteq> []"
  "count_capture_groups (ustr ''Date: ([0-9/]+)'') = 1"
  "py_strip (ustr ''Total: ([0-9.]+)'') \<noteq> []"
  "count_capture_groups (ustr ''Total: ([0-9.]+)'') = 1"
  "py_strip (ustr ''Subtotal'') \<noteq> []"
  "count_capture_groups (ustr ''Subtotal'') = 0"
  "py_strip (ustr ''^([A-Za-z ]+)'') \<noteq> []"
  "count_capture_groups (ustr ''^([A-Za-z ]+)'') = 1"
  "py_strip (ustr '' ([0-9]+) '') \<noteq> []"
  "count_capture_groups (ustr '' ([0-9]+) '') = 1"
  "py_strip (ustr ''([0-9]+.[0-9][0-9]) '') \<noteq> []"
  "count_capture_groups (ustr ''([0-9]+.[0-9][0-9]) '') = 1"
  "py_strip (ustr ''(([0-9]+).([0-9][0-9]))$'') \<noteq> []"
  "count_capture_groups (ustr ''(([0-9]+).([0-9][0-9]))$'') = 3"
  "py_strip (ustr ''Description'') \<noteq> []"
  "count_capture_groups (ustr ''Description'') = 0"
  "py_strip (ustr ''(EA|CS)'') \<noteq> []"
  "count_capture_groups (ustr ''(EA|CS)'') = 1"
  "py_strip [] = []"
  by (simp_all add: count_capture_groups_def py_strip_def py_lstrip_def py_rstrip_def
      py_isspace_def ustr_def)

lemmas phase2_eval = phase2_validate_def check_invoice_level_def check_line_item_level_def
  required_invoice_keys_def strict_invoice_fields_def required_line_item_keys_def
  strict_line_fields_def marker_fields_def sample_template_def key_neqs sample_pattern_facts

lemmas claimed_eval = claimed_phase2_rejects_def get_object_def blank_string_def
  groupless_pattern_def
  required_invoice_keys_def strict_invoice_fields_def required_line_item_keys_def
  marker_fields_def sample_template_def key_neqs sample_pattern_facts

text \<open>
  Claim C4, amended. The answer of the model passes phase-2 validation exactly when
  \<open>invoice_level\<close> and \<open>line_item_level\<close> are objects and every required key holds a
  string that is not blank if the field is mandatory and that has at least one capture
  group if it is not blank and is not a block marker. The mandatory fields are the three
  invoice-level fields other than \<open>order_date\<close> and the six line-item fields other than
  \<open>unit\<close>; they include the two block markers. Every other object is rejected with a
  validation error, and an answer that is not an object with a parse error. A pattern
  with more than one capture group is accepted.
\<close>

theorem phase2_validation_criterion:
  "(phase2_validate parsed = Inr parsed \<longleftrightarrow> phase2_accepts parsed) \<and>
   ((\<exists>m. phase2_validate parsed = Inl (Phase2ValidationError m)) \<longleftrightarrow>
      (\<exists>d. parsed = JObj d) \<and> \<not> phase2_accepts parsed) \<and>
   (phase2_validate parsed = Inl Phase2ParseError \<longleftrightarrow> (\<forall>d. parsed \<noteq> JObj d)) \<and>
   (call_llm_api (Phase2Prompt text phase1_json) = Inr parsed \<longrightarrow>
      llm_phase2_generate_regex call_llm_api text phase1_json = phase2_validate parsed) \<and>
   set strict_invoice_fields = set required_invoice_keys - {key_order_date} \<and>
   set strict_line_fields = set required_line_item_keys - {key_unit} \<and>
   set marker_fields = {key_line_item_block_start, key_line_item_block_end}"
proof (cases "\<exists>d. parsed = JObj d")
  case True
  then obtain d where d: "parsed = JObj d" by blast
  from phase2_validate_object[of d] show ?thesis
    unfolding d by (auto simp: strict_sets llm_phase2_generate_regex_def)
next
  case False
  then have "\<forall>d. parsed \<noteq> JObj d" by blast
  from phase2_validate_not_object[OF this] False show ?thesis
    by (auto simp: strict_sets llm_phase2_generate_regex_def)
qed

theorem phase2_validation_criterion_witness:
  "phase2_validate (sample_template (JStr []) (JStr (ustr ''Description'')) (JStr [])) =
     Inr (sample_template (JStr []) (JStr (ustr ''Description'')) (JStr [])) \<and>
   phase2_accepts (sample_template (JStr []) (JStr (ustr ''Description'')) (JStr [])) \<and>
   count_capture_groups (ustr ''(([0-9]+).([0-9][0-9]))$'') = 3 \<and>
   llm_phase2_generate_regex
     (\<lambda>p. Inr (sample_template (JStr []) (JStr (ustr ''Description'')) (JStr []))) [] JNull =
     Inr (sample_template (JStr []) (JStr (ustr ''Description'')) (JStr []))"
proof -
  let ?t = "sample_template (JStr []) (JStr (ustr ''Description'')) (JStr [])"
  have v: "phase2_validate ?t = Inr ?t" by (simp add: phase2_eval)
  from phase2_validation_criterion[of ?t "\<lambda>p. Inr ?t" "[]" JNull] v
  have "phase2_accepts ?t" and "llm_phase2_generate_regex (\<lambda>p. Inr ?t) [] JNull = Inr ?t"
    by simp_all
  then show ?thesis using v by (simp add: sample_pattern_facts)
qed

text \<open>
  Claim C4 as stated fails in three ways. A blank \<open>unit\<close> pattern is accepted although
  the claim counts \<open>unit\<close> among the mandatory line-item fields; a blank start marker is
  rejected although the claim exempts the block markers; and a value that is not a
  string (\<open>null\<close> for \<open>order_date\<close>) is rejected although the claim lists no such case.
\<close>

theorem claimed_phase2_rejects_counterexample:
  "claimed_phase2_rejects (sample_template (JStr []) (JStr (ustr ''Description'')) (JStr [])) \<and>
   phase2_validate (sample_template (JStr []) (JStr (ustr ''Description'')) (JStr [])) =
     Inr (sample_template (JStr []) (JStr (ustr ''Description'')) (JStr [])) \<and>
   \<not> claimed_phase2_rejects (sample_template (JStr []) (JStr []) (JStr (ustr ''(EA|CS)''))) \<and>
   phase2_validate (sample_template (JStr []) (JStr []) (JStr (ustr ''(EA|CS)''))) =
     Inl (Phase2ValidationError ''Empty/Invalid strictly required line_item_level regex values'') \<and>
   \<not> claimed_phase2_rejects
       (sample_template JNull (JStr (ustr ''Description'')) (JStr (ustr ''(EA|CS)''))) \<and>
   phase2_validate (sample_template JNull (JStr (ustr ''Description'')) (JStr (ustr ''(EA|CS)''))) =
     Inl (Phase2ValidationError ''Empty/Invalid strictly required invoice_level regex values'')"
proof (intro conjI)
  show "claimed_phase2_rejects (sample_template (JStr []) (JStr (ustr ''Description'')) (JStr []))"
    by (simp add: claimed_eval)
  show "phase2_validate (sample_template (JStr []) (JStr (ustr ''Description'')) (JStr [])) =
     Inr (sample_template (JStr []) (JStr (ustr ''Description'')) (JStr []))"
    by (simp add: phase2_eval)
  show "\<not> claimed_phase2_rejects (sample_template (JStr []) (JStr []) (JStr (ustr ''(EA|CS)'')))"
    by (simp add: claimed_eval)
  show "phase2_validate (sample_template (JStr []) (JStr []) (JStr (ustr ''(EA|CS)''))) =
     Inl (Phase2ValidationError ''Empty/Invalid strictly required line_item_level regex values'')"
    by (simp add: phase2_eval)
  show "\<not> claimed_phase2_rejects
       (sample_template JNull (JStr (ustr ''Description'')) (JStr (ustr ''(EA|CS)'')))"
    by (simp add: claimed_eval)
  show "phase2_validate (sample_template JNull (JStr (ustr ''Description'')) (JStr (ustr ''(EA|CS)''))) =
     Inl (Phase2ValidationError ''Empty/Invalid strictly required invoice_level regex values'')"
    by (simp add: phase2_eval)
qed

section \<open>Properties of vendor resolution\<close>

lemma find_one_vendor_exists:
  assumes "\<exists>d \<in> set vs. \<exists>val. field d = Some val \<and> matches q val"
  shows "\<exists>d \<in> set vs. find_one_vendor matches field q vs = Some (v_id d) \<and>
           (\<exists>val. field d = Some val \<and> matches q val)"
proof -
  let ?P = "\<lambda>d. case field d of Some v \<Rightarrow> matches q v | None \<Rightarrow> False"
  from assms have "\<exists>d \<in> set vs. ?P d" by (auto split: option.splits)
  then obtain d where f: "List.find ?P vs = Some d"
    by (cases "List.find ?P vs") (auto simp: find_None_iff)
  then have "d \<in> set vs" "?P d" by (auto simp: find_Some_iff)
  then show ?thesis using f by (auto simp: find_one_vendor_def split: option.splits)
qed

lemma find_one_vendor_Some:
  assumes "find_one_vendor matches field q vs = Some v"
  shows "\<exists>d \<in> set vs. v = v_id d \<and> (\<exists>val. field d = Some val \<and> matches q val)"
proof -
  let ?P = "\<lambda>d. case field d of Some v \<Rightarrow> matches q v | None \<Rightarrow> False"
  from assms obtain d where f: "List.find ?P vs = Some d" and v: "v = v_id d"
    by (auto simp: find_one_vendor_def)
  then have "d \<in> set vs" "?P d" by (auto simp: find_Some_iff)
  then show ?thesis using v by (auto split: option.splits)
qed

text \<open>
  Claim C3. \<open>search_vendor_by_signals\<close> asks the registry by website, then e-mail, then
  phone, then address, then name; the answer of a lookup is returned with its label as soon
  as it is an id, and a later lookup decides only when all earlier ones gave none. The
  phone lookup uses the digits of the signal and needs at least seven of them; the name
  lookup uses the normalized name and needs at least three characters. Hence, when the
  website signal matches a registered vendor, a vendor matched by website is returned with
  \<open>matched_by = "website"\<close>, whatever the name signal matches.
\<close>

theorem search_vendor_by_signals_priority:
  "(if_signal (sig_website sigs) (find_vendor_by_website M vs) = Some v \<longrightarrow>
      search_vendor_by_signals M vs sigs = Some (v, ''website'')) \<and>
   (if_signal (sig_website sigs) (find_vendor_by_website M vs) = None \<and>
    if_signal (sig_vendor_email_id sigs) (find_vendor_by_email M vs) = Some v \<longrightarrow>
      search_vendor_by_signals M vs sigs = Some (v, ''email'')) \<and>
   (if_signal (sig_website sigs) (find_vendor_by_website M vs) = None \<and>
    if_signal (sig_vendor_email_id sigs) (find_vendor_by_email M vs) = None \<and>
    if_signal (sig_vendor_phone_number sigs) (find_vendor_by_phone M vs) = Some v \<longrightarrow>
      search_vendor_by_signals M vs sigs = Some (v, ''phone'')) \<and>
   (if_signal (sig_website sigs) (find_vendor_by_website M vs) = None \<and>
    if_signal (sig_vendor_email_id sigs) (find_vendor_by_email M vs) = None \<and>
    if_signal (sig_vendor_phone_number sigs) (find_vendor_by_phone M vs) = None \<and>
    if_signal (sig_vendor_physical_address sigs) (find_vendor_by_address M vs) = Some v \<longrightarrow>
      search_vendor_by_signals M vs sigs = Some (v, ''address'')) \<and>
   (if_signal (sig_website sigs) (find_vendor_by_website M vs) = None \<and>
    if_signal (sig_vendor_email_id sigs) (find_vendor_by_email M vs) = None \<and>
    if_signal (sig_vendor_phone_number sigs) (find_vendor_by_phone M vs) = None \<and>
    if_signal (sig_vendor_physical_address sigs) (find_vendor_by_address M vs) = None \<longrightarrow>
      search_vendor_by_signals M vs sigs =
        (case sig_vendor_name sigs of
           None \<Rightarrow> None
         | Some name \<Rightarrow>
             if name = [] \<or> length (normalize_name name) < 3 then None
             else map_option (\<lambda>i. (i, ''name''))
                    (find_one_vendor M v_name (normalize_name name) vs))) \<and>
   find_vendor_by_phone M vs phone =
     (if length (filter is_digit phone) < 7 then None
      else find_one_vendor M v_phone_number (filter is_digit phone) vs) \<and>
   (sig_website sigs = Some url \<and> py_strip url \<noteq> [] \<and>
    (\<exists>d \<in> set vs. \<exists>val. v_website d = Some val \<and> M (py_strip url) val) \<longrightarrow>
      (\<exists>d \<in> set vs. search_vendor_by_signals M vs sigs = Some (v_id d, ''website'') \<and>
         (\<exists>val. v_website d = Some val \<and> M (py_strip url) val)))"
proof (intro conjI impI)
  show "find_vendor_by_phone M vs phone =
     (if length (filter is_digit phone) < 7 then None
      else find_one_vendor M v_phone_number (filter is_digit phone) vs)"
    by (auto simp: find_vendor_by_phone_def get_vendor_by_phone_def Let_def)
next
  assume a: "sig_website sigs = Some url \<and> py_strip url \<noteq> [] \<and>
    (\<exists>d \<in> set vs. \<exists>val. v_website d = Some val \<and> M (py_strip url) val)"
  then have une: "url \<noteq> []" by (auto simp: py_strip_def py_lstrip_def py_rstrip_def)
  from a find_one_vendor_exists[of vs v_website M "py_strip url"]
  obtain d where d: "d \<in> set vs" "find_one_vendor M v_website (py_strip url) vs = Some (v_id d)"
    "\<exists>val. v_website d = Some val \<and> M (py_strip url) val"
    by blast
  have "search_vendor_by_signals M vs sigs = Some (v_id d, ''website'')"
    using a une d(2)
    by (simp add: search_vendor_by_signals_def if_signal_def find_vendor_by_website_def
        get_vendor_by_website_def)
  with d show "\<exists>d \<in> set vs. search_vendor_by_signals M vs sigs = Some (v_id d, ''website'') \<and>
         (\<exists>val. v_website d = Some val \<and> M (py_strip url) val)"
    by blast
next
  assume "if_signal (sig_website sigs) (find_vendor_by_website M vs) = None \<and>
    if_signal (sig_vendor_email_id sigs) (find_vendor_by_email M vs) = None \<and>
    if_signal (sig_vendor_phone_number sigs) (find_vendor_by_phone M vs) = None \<and>
    if_signal (sig_vendor_physical_address sigs) (find_vendor_by_address M vs) = None"
  then have s: "search_vendor_by_signals M vs sigs =
      (case if_signal (sig_vendor_name sigs)
             (\<lambda>name. let normalized = normalize_name name
                      in if 3 \<le> length normalized
                         then find_vendor_by_name M vs normalized else None) of
        Some vid \<Rightarrow> Some (vid, ''name'')
      | None \<Rightarrow> None)"
    by (simp add: search_vendor_by_signals_def)
  have n: "normalize_name name = [] \<Longrightarrow> \<not> 3 \<le> length (normalize_name name)" for name
    by simp
  show "search_vendor_by_signals M vs sigs =
        (case sig_vendor_name sigs of
           None \<Rightarrow> None
         | Some name \<Rightarrow>
             if name = [] \<or> length (normalize_name name) < 3 then None
             else map_option (\<lambda>i. (i, ''name''))
                    (find_one_vendor M v_name (normalize_name name) vs))"
  proof (cases "sig_vendor_name sigs")
    case None
    then show ?thesis unfolding s by (simp add: if_signal_def)
  next
    case (Some name)
    show ?thesis
    proof (cases "name = [] \<or> length (normalize_name name) < 3")
      case True
      then show ?thesis unfolding s Some by (auto simp: if_signal_def Let_def)
    next
      case False
      then have "normalize_name name \<noteq> []" by auto
      then show ?thesis
        unfolding s Some using False
        by (cases "find_one_vendor M v_name (normalize_name name) vs")
           (simp_all add: if_signal_def Let_def find_vendor_by_name_def get_vendor_by_name_def)
    qed
  qed
qed (simp_all add: search_vendor_by_signals_def)

lemmas sample_lookup_eval = if_signal_def find_vendor_by_website_def get_vendor_by_website_def
  find_vendor_by_email_def find_vendor_by_phone_def find_vendor_by_address_def
  find_vendor_by_name_def get_vendor_by_name_def find_one_vendor_def ci_equal_def
  sample_vendor_def sample_signals_def normalize_name_def lower_alnum_def is_digit_def
  ascii_lower_def py_strip_def py_lstrip_def py_rstrip_def py_isspace_def ustr_def Let_def

theorem search_vendor_by_signals_priority_witness:
  "if_signal (sig_website (sample_signals (Some (ustr ''WWW.ACME.COM '')) (Some (ustr ''Globex, Inc.''))))
     (find_vendor_by_website ci_equal
        [sample_vendor 1 (ustr ''acmefoods'') (Some (JStr (ustr ''www.acme.com''))),
         sample_vendor 2 (ustr ''globexinc'') None]) = Some 1 \<and>
   search_vendor_by_signals ci_equal
     [sample_vendor 1 (ustr ''acmefoods'') (Some (JStr (ustr ''www.acme.com''))),
      sample_vendor 2 (ustr ''globexinc'') None]
     (sample_signals (Some (ustr ''WWW.ACME.COM '')) (Some (ustr ''Globex, Inc.''))) =
     Some (1, ''website'') \<and>
   search_vendor_by_signals ci_equal
     [sample_vendor 1 (ustr ''acmefoods'') (Some (JStr (ustr ''www.acme.com''))),
      sample_vendor 2 (ustr ''globexinc'') None]
     (sample_signals None (Some (ustr ''Globex, Inc.''))) = Some (2, ''name'')"
proof -
  let ?vs = "[sample_vendor 1 (ustr ''acmefoods'') (Some (JStr (ustr ''www.acme.com''))),
              sample_vendor 2 (ustr ''globexinc'') None]"
  let ?s1 = "sample_signals (Some (ustr ''WWW.ACME.COM '')) (Some (ustr ''Globex, Inc.''))"
  let ?s2 = "sample_signals None (Some (ustr ''Globex, Inc.''))"
  have w: "if_signal (sig_website ?s1) (find_vendor_by_website ci_equal ?vs) = Some 1"
    by (simp add: sample_lookup_eval)
  have n: "if_signal (sig_website ?s2) (find_vendor_by_website ci_equal ?vs) = None"
    "if_signal (sig_vendor_email_id ?s2) (find_vendor_by_email ci_equal ?vs) = None"
    "if_signal (sig_vendor_phone_number ?s2) (find_vendor_by_phone ci_equal ?vs) = None"
    "if_signal (sig_vendor_physical_address ?s2) (find_vendor_by_address ci_equal ?vs) = None"
    by (simp_all add: sample_signals_def if_signal_def)
  have nm: "(case sig_vendor_name ?s2 of
           None \<Rightarrow> None
         | Some name \<Rightarrow>
             if name = [] \<or> length (normalize_name name) < 3 then None
             else map_option (\<lambda>i. (i, ''name''))
                    (find_one_vendor ci_equal v_name (normalize_name name) ?vs)) = Some (2, ''name'')"
    by (simp add: sample_lookup_eval)
  from search_vendor_by_signals_priority[of ?s1 ci_equal ?vs 1] w
  have a: "search_vendor_by_signals ci_equal ?vs ?s1 = Some (1, ''website'')" by blast
  from search_vendor_by_signals_priority[of ?s2 ci_equal ?vs] n nm
  have b: "search_vendor_by_signals ci_equal ?vs ?s2 = Some (2, ''name'')" by simp
  from w a b show ?thesis by simp
qed

lemma identify_known_vendor_no_template:
  assumes "search_vendor_by_signals (env_matches e) (vendors w) (env_signals e text) =
             Some (vid, matched_by)"
    and "\<not> py_truthy (get_vendor_regex_patterns (templates w) vid)"
  shows "identify_vendor_and_get_regex e w text =
           (Inl (ValueError ''Vendor found - But no regex for that vendor found in DB''), w)"
  using assms by (simp add: identify_vendor_and_get_regex_def Let_def)

lemma no_template_doc_not_truthy:
  "List.find (\<lambda>t. fst t = vid) ts = None \<Longrightarrow> \<not> py_truthy (get_vendor_regex_patterns ts vid)"
  by (simp add: get_vendor_regex_patterns_def py_truthy_def)

text \<open>
  Claim C5. When the signals match a registered vendor and the registry holds no
  template for it (no template document, or one whose patterns are empty), resolution
  raises the fatal error and leaves the state as it was: no prompt is sent to the
  language model, and no vendor or template is written.
\<close>

theorem known_vendor_without_template_is_fatal:
  "(search_vendor_by_signals (env_matches e) (vendors w) (env_signals e text) =
      Some (vid, matched_by) \<and>
    \<not> py_truthy (get_vendor_regex_patterns (templates w) vid) \<longrightarrow>
      identify_vendor_and_get_regex e w text =
        (Inl (ValueError ''Vendor found - But no regex for that vendor found in DB''), w) \<and>
      llm_log (snd (identify_vendor_and_get_regex e w text)) = llm_log w) \<and>
   (List.find (\<lambda>t. fst t = vid) (templates w) = None \<longrightarrow>
      \<not> py_truthy (get_vendor_regex_patterns (templates w) vid))"
  using identify_known_vendor_no_template[of e w "text" vid matched_by]
    no_template_doc_not_truthy[of vid "templates w"]
  by auto

lemmas phase1_key_defs = key_invoice_details_def key_line_items_def key_vendor_master_data_def
  key_vendor_name_def key_vendor_email_id_def key_vendor_phone_number_def
  key_vendor_physical_address_def key_vendor_website_def

lemma sample_search_none:
  "search_vendor_by_signals ci_equal [] (sample_signals site name) = None"
  by (cases site; cases name)
     (simp_all add: search_vendor_by_signals_def sample_signals_def if_signal_def
        find_vendor_by_website_def get_vendor_by_website_def find_vendor_by_name_def
        get_vendor_by_name_def find_one_vendor_def Let_def)

lemma sample_phase1_valid:
  "phase1_validate sample_phase1 =
     Inr (JObj [(key_invoice_details,
            JObj [(key_invoice_number, JStr (ustr ''1001'')),
                  (key_invoice_date, JStr (ustr ''2024-01-31'')),
                  (key_invoice_total_amount, JStr (ustr ''6.00''))]),
           (key_line_items, JArr []),
           (key_vendor_master_data,
            JObj [(key_vendor_name, JStr (ustr ''Acme Foods'')),
                  (key_vendor_email_id, JNull), (key_vendor_phone_number, JNull),
                  (key_vendor_physical_address, JNull), (key_vendor_website, JNull)])])"
  by (simp add: phase1_validate_def sample_phase1_def dict_set_def
      phase1_key_defs key_defs ustr_def py_strip_def py_lstrip_def py_rstrip_def py_isspace_def)

lemma phase1_key_neqs:
  "key_vendor_name \<noteq> key_vendor_email_id"
  "key_vendor_name \<noteq> key_vendor_phone_number"
  "key_vendor_name \<noteq> key_vendor_physical_address"
  "key_vendor_name \<noteq> key_vendor_website"
  "key_vendor_email_id \<noteq> key_vendor_name"
  "key_vendor_email_id \<noteq> key_vendor_phone_number"
  "key_vendor_email_id \<noteq> key_vendor_physical_address"
  "key_vendor_email_id \<noteq> key_vendor_website"
  "key_vendor_phone_number \<noteq> key_vendor_name"
  "key_vendor_phone_number \<noteq> key_vendor_email_id"
  "key_vendor_phone_number \<noteq> key_vendor_physical_address"
  "key_vendor_phone_number \<noteq> key_vendor_website"
  "key_vendor_physical_address \<noteq> key_vendor_name"
  "key_vendor_physical_address \<noteq> key_vendor_email_id"
  "key_vendor_physical_address \<noteq> key_vendor_phone_number"
  "key_vendor_physical_address \<noteq> key_vendor_website"
  "key_vendor_website \<noteq> key_vendor_name"
  "key_vendor_website \<noteq> key_vendor_email_id"
  "key_vendor_website \<noteq> key_vendor_phone_number"
  "key_vendor_website \<noteq> key_vendor_physical_address"
  "key_invoice_details \<noteq> key_line_items"
  "key_invoice_details \<noteq> key_vendor_master_data"
  "key_line_items \<noteq> key_invoice_details"
  "key_line_items \<noteq> key_vendor_master_data"
  "key_vendor_master_data \<noteq> key_invoice_details"
  "key_vendor_master_data \<noteq> key_line_items"
  by (simp_all add: phase1_key_defs ustr_def)

lemma identify_new_vendor:
  assumes "search_vendor_by_signals (env_matches e) (vendors w) (env_signals e text) = None"
    and "llm_phase1_extract (env_llm e) text = Inr (JObj d)"
    and "d \<noteq> []"
    and "map_of d key_vendor_master_data = Some (JObj vendor)"
    and "llm_phase2_generate_regex (env_llm e) text (JObj d) = Inr new_regexes"
    and "py_truthy new_regexes"
    and "save_vendor_details (env_insert e)
           (w\<lparr>llm_log := llm_log w @ [Phase1Prompt text, Phase2Prompt text (JObj d)]\<rparr>) vendor =
         (Inr new_vendor_id, w3)"
  shows "identify_vendor_and_get_regex e w text =
     (Inr \<lparr>ctx_vendor_id = new_vendor_id, ctx_vendor_name = None, ctx_regex = new_regexes,
           ctx_created = Some True, ctx_matched_by = None, ctx_identification_error = None\<rparr>,
      save_vendor_regex_template w3 new_vendor_id new_regexes)"
proof -
  have t: "py_truthy (JObj d)" using assms(3) by (simp add: py_truthy_def)
  have n: "find_vendor_name_by_id (vendors w3) None = None"
    by (simp add: find_vendor_name_by_id_def)
  show ?thesis
    unfolding identify_vendor_and_get_regex_def Let_def
    using assms(1,2,4,5,6,7) t n by simp
qed

text \<open>
  Claim C8. With no matching vendor and two valid answers of the language model, the
  new vendor and its template are stored and the context carries the new id, the template
  and \<open>created = True\<close>. The vendor name in the context, however, is \<open>None\<close>: the code
  looks the name up under \<open>vendor_id\<close>, which is \<open>None\<close> on this path, instead of under the
  new id, whose document holds the name \<open>"Acme Foods"\<close>.
\<close>

theorem new_vendor_name_is_lost:
  "identify_vendor_and_get_regex (sample_env (sample_signals None None) sample_llm)
     \<lparr>vendors = [], templates = [], llm_log = []\<rparr> (ustr ''Acme Foods Invoice No: 1001'') =
   (Inr \<lparr>ctx_vendor_id = Some 7, ctx_vendor_name = None,
         ctx_regex = sample_template (JStr []) (JStr (ustr ''Description'')) (JStr []),
         ctx_created = Some True, ctx_matched_by = None, ctx_identification_error = None\<rparr>,
    \<lparr>vendors = [\<lparr>v_id = 7, v_name = Some (JStr (ustr ''Acme Foods'')), v_contact_email = None,
                  v_phone_number = None, v_address = None, v_website = None\<rparr>],
     templates = [(7, Some (JArr
        [JStr (ustr ''Invoice No: ([0-9]+)''), JStr (ustr ''Date: ([0-9/]+)''),
         JStr (ustr ''Total: ([0-9.]+)''), JStr [], JStr (ustr ''Description''),
         JStr (ustr ''Subtotal''), JStr (ustr '' ([0-9]+) ''), JStr (ustr ''^([A-Za-z ]+)''),
         JStr [], JStr (ustr ''([0-9]+.[0-9][0-9]) ''),
         JStr (ustr ''(([0-9]+).([0-9][0-9]))$'')]))],
     llm_log = [Phase1Prompt (ustr ''Acme Foods Invoice No: 1001''),
                Phase2Prompt (ustr ''Acme Foods Invoice No: 1001'')
                  (JObj [(key_invoice_details,
                     JObj [(key_invoice_number, JStr (ustr ''1001'')),
                           (key_invoice_date, JStr (ustr ''2024-01-31'')),
                           (key_invoice_total_amount, JStr (ustr ''6.00''))]),
                    (key_line_items, JArr []),
                    (key_vendor_master_data,
                     JObj [(key_vendor_name, JStr (ustr ''Acme Foods'')),
                           (key_vendor_email_id, JNull), (key_vendor_phone_number, JNull),
                           (key_vendor_physical_address, JNull), (key_vendor_website, JNull)])])]\<rparr>) \<and>
   find_vendor_name_by_id
     [\<lparr>v_id = 7, v_name = Some (JStr (ustr ''Acme Foods'')), v_contact_email = None,
       v_phone_number = None, v_address = None, v_website = None\<rparr>] (Some 7) =
     Some (JStr (ustr ''Acme Foods''))"
proof
  let ?text = "ustr ''Acme Foods Invoice No: 1001''"
  let ?e = "sample_env (sample_signals None None) sample_llm"
  let ?w = "\<lparr>vendors = [], templates = [], llm_log = []\<rparr>"
  let ?t = "sample_template (JStr []) (JStr (ustr ''Description'')) (JStr [])"
  let ?vendor = "[(key_vendor_name, JStr (ustr ''Acme Foods'')),
                  (key_vendor_email_id, JNull), (key_vendor_phone_number, JNull),
                  (key_vendor_physical_address, JNull), (key_vendor_website, JNull)]"
  let ?d = "[(key_invoice_details,
            JObj [(key_invoice_number, JStr (ustr ''1001'')),
                  (key_invoice_date, JStr (ustr ''2024-01-31'')),
                  (key_invoice_total_amount, JStr (ustr ''6.00''))]),
           (key_line_items, JArr []),
           (key_vendor_master_data, JObj ?vendor)]"
  have nm: "py_truthy (JStr (ustr ''Acme Foods''))" by (simp add: py_truthy_def ustr_def)
  have s: "search_vendor_by_signals (env_matches ?e) (vendors ?w) (env_signals ?e ?text) = None"
    by (simp add: sample_env_def sample_search_none)
  have p1: "llm_phase1_extract (env_llm ?e) ?text = Inr (JObj ?d)"
    by (simp add: llm_phase1_extract_def sample_env_def sample_llm_def sample_phase1_valid)
  have p2v: "phase2_validate ?t = Inr ?t" by (simp add: phase2_eval)
  have p2: "llm_phase2_generate_regex (env_llm ?e) ?text (JObj ?d) = Inr ?t"
    by (simp add: llm_phase2_generate_regex_def sample_env_def sample_llm_def p2v)
  have tt: "py_truthy ?t" by (simp add: py_truthy_def sample_template_def)
  have md: "map_of ?d key_vendor_master_data = Some (JObj ?vendor)"
    by (simp add: phase1_key_neqs)
  have sv: "save_vendor_details (env_insert ?e)
           (?w\<lparr>llm_log := llm_log ?w @ [Phase1Prompt ?text, Phase2Prompt ?text (JObj ?d)]\<rparr>) ?vendor =
         (Inr (Some 7),
          \<lparr>vendors = [\<lparr>v_id = 7, v_name = Some (JStr (ustr ''Acme Foods'')), v_contact_email = None,
                  v_phone_number = None, v_address = None, v_website = None\<rparr>],
           templates = [],
           llm_log = [Phase1Prompt ?text, Phase2Prompt ?text (JObj ?d)]\<rparr>)"
    by (simp add: save_vendor_details_def create_vendor_def get_or_def not_none_def nm
        sample_env_def phase1_key_neqs)
  have fl: "flatten_patterns
       [(key_invoice_level,
            JObj [(key_invoice_number, JStr (ustr ''Invoice No: ([0-9]+)'')),
                  (key_invoice_date, JStr (ustr ''Date: ([0-9/]+)'')),
                  (key_invoice_total_amount, JStr (ustr ''Total: ([0-9.]+)'')),
                  (key_order_date, JStr [])]),
           (key_line_item_level,
            JObj [(key_line_item_block_start, JStr (ustr ''Description'')),
                  (key_line_item_block_end, JStr (ustr ''Subtotal'')),
                  (key_description, JStr (ustr ''^([A-Za-z ]+)'')),
                  (key_quantity, JStr (ustr '' ([0-9]+) '')),
                  (key_unit, JStr []),
                  (key_unit_price, JStr (ustr ''([0-9]+.[0-9][0-9]) '')),
                  (key_line_total, JStr (ustr ''(([0-9]+).([0-9][0-9]))$''))])] =
        [JStr (ustr ''Invoice No: ([0-9]+)''), JStr (ustr ''Date: ([0-9/]+)''),
         JStr (ustr ''Total: ([0-9.]+)''), JStr [], JStr (ustr ''Description''),
         JStr (ustr ''Subtotal''), JStr (ustr '' ([0-9]+) ''), JStr (ustr ''^([A-Za-z ]+)''),
         JStr [], JStr (ustr ''([0-9]+.[0-9][0-9]) ''),
         JStr (ustr ''(([0-9]+).([0-9][0-9]))$'')]"
    by (simp add: flatten_patterns_def get_or_def key_neqs)
  have st: "save_vendor_regex_template
          \<lparr>vendors = [\<lparr>v_id = 7, v_name = Some (JStr (ustr ''Acme Foods'')), v_contact_email = None,
                  v_phone_number = None, v_address = None, v_website = None\<rparr>],
           templates = [],
           llm_log = [Phase1Prompt ?text, Phase2Prompt ?text (JObj ?d)]\<rparr> (Some 7) ?t =
          \<lparr>vendors = [\<lparr>v_id = 7, v_name = Some (JStr (ustr ''Acme Foods'')), v_contact_email = None,
                  v_phone_number = None, v_address = None, v_website = None\<rparr>],
           templates = [(7, Some (JArr
        [JStr (ustr ''Invoice No: ([0-9]+)''), JStr (ustr ''Date: ([0-9/]+)''),
         JStr (ustr ''Total: ([0-9.]+)''), JStr [], JStr (ustr ''Description''),
         JStr (ustr ''Subtotal''), JStr (ustr '' ([0-9]+) ''), JStr (ustr ''^([A-Za-z ]+)''),
         JStr [], JStr (ustr ''([0-9]+.[0-9][0-9]) ''),
         JStr (ustr ''(([0-9]+).([0-9][0-9]))$'')]))],
           llm_log = [Phase1Prompt ?text, Phase2Prompt ?text (JObj ?d)]\<rparr>"
    unfolding save_vendor_regex_template_def sample_template_def by (simp add: fl)
  have "?d \<noteq> []" by simp
  from identify_new_vendor[OF s p1 this md p2 tt sv]
  show "identify_vendor_and_get_regex ?e ?w ?text =
   (Inr \<lparr>ctx_vendor_id = Some 7, ctx_vendor_name = None,
         ctx_regex = ?t,
         ctx_created = Some True, ctx_matched_by = None, ctx_identification_error = None\<rparr>,
    \<lparr>vendors = [\<lparr>v_id = 7, v_name = Some (JStr (ustr ''Acme Foods'')), v_contact_email = None,
                  v_phone_number = None, v_address = None, v_website = None\<rparr>],
     templates = [(7, Some (JArr
        [JStr (ustr ''Invoice No: ([0-9]+)''), JStr (ustr ''Date: ([0-9/]+)''),
         JStr (ustr ''Total: ([0-9.]+)''), JStr [], JStr (ustr ''Description''),
         JStr (ustr ''Subtotal''), JStr (ustr '' ([0-9]+) ''), JStr (ustr ''^([A-Za-z ]+)''),
         JStr [], JStr (ustr ''([0-9]+.[0-9][0-9]) ''),
         JStr (ustr ''(([0-9]+).([0-9][0-9]))$'')]))],
     llm_log = [Phase1Prompt ?text, Phase2Prompt ?text (JObj ?d)]\<rparr>)"
    unfolding st .
  show "find_vendor_name_by_id
     [\<lparr>v_id = 7, v_name = Some (JStr (ustr ''Acme Foods'')), v_contact_email = None,
       v_phone_number = None, v_address = None, v_website = None\<rparr>] (Some 7) =
     Some (JStr (ustr ''Acme Foods''))"
    by (simp add: find_vendor_name_by_id_def get_vendor_name_by_id_def nm)
qed

theorem known_vendor_without_template_is_fatal_witness:
  "search_vendor_by_signals ci_equal
     [sample_vendor 1 (ustr ''acmefoods'') (Some (JStr (ustr ''www.acme.com'')))]
     (sample_signals (Some (ustr ''www.acme.com'')) None) = Some (1, ''website'') \<and>
   get_vendor_regex_patterns [] 1 = JArr [] \<and>
   identify_vendor_and_get_regex
     (sample_env (sample_signals (Some (ustr ''www.acme.com'')) None) sample_llm)
     \<lparr>vendors = [sample_vendor 1 (ustr ''acmefoods'') (Some (JStr (ustr ''www.acme.com'')))],
      templates = [], llm_log = []\<rparr> (ustr ''ACME FOODS'') =
     (Inl (ValueError ''Vendor found - But no regex for that vendor found in DB''),
      \<lparr>vendors = [sample_vendor 1 (ustr ''acmefoods'') (Some (JStr (ustr ''www.acme.com'')))],
       templates = [], llm_log = []\<rparr>)"
proof -
  let ?e = "sample_env (sample_signals (Some (ustr ''www.acme.com'')) None) sample_llm"
  let ?w = "\<lparr>vendors = [sample_vendor 1 (ustr ''acmefoods'') (Some (JStr (ustr ''www.acme.com'')))],
      templates = [], llm_log = []\<rparr>"
  have s: "search_vendor_by_signals ci_equal
     [sample_vendor 1 (ustr ''acmefoods'') (Some (JStr (ustr ''www.acme.com'')))]
     (sample_signals (Some (ustr ''www.acme.com'')) None) = Some (1, ''website'')"
    by (simp add: search_vendor_by_signals_def sample_lookup_eval)
  then have s': "search_vendor_by_signals (env_matches ?e) (vendors ?w)
      (env_signals ?e (ustr ''ACME FOODS'')) = Some (1, ''website'')"
    by (simp add: sample_env_def)
  have t: "get_vendor_regex_patterns [] 1 = JArr []"
    by (simp add: get_vendor_regex_patterns_def)
  then have t': "\<not> py_truthy (get_vendor_regex_patterns (templates ?w) 1)"
    by (simp add: py_truthy_def)
  from known_vendor_without_template_is_fatal[of ?e ?w "ustr ''ACME FOODS''" 1 "''website''"] s' t'
  have "identify_vendor_and_get_regex ?e ?w (ustr ''ACME FOODS'') =
     (Inl (ValueError ''Vendor found - But no regex for that vendor found in DB''), ?w)"
    by blast
  with s t show ?thesis by simp
qed

lemma length_flatten_patterns: "length (flatten_patterns d) = 11"
  by (simp add: flatten_patterns_def Let_def)

lemma generic_regex_flat:
  "\<exists>d. generic_regex = JObj d \<and> length (flatten_patterns d) = 11"
  by (simp add: generic_regex_def length_flatten_patterns)

text \<open>
  Claim C10. For a text that is not blank, an exception raised by vendor resolution is
  caught: the vendor context becomes the fallback context, with the name
  \<open>"Unknown Vendor"\<close>, the id given by \<open>ObjectId()\<close>, the generic template of eleven
  patterns and the exception recorded as \<open>identification_error\<close>, and extraction and
  record building go on with it. This holds in particular for the error raised for a
  known vendor that has no template.
\<close>

theorem resolution_failure_falls_back:
  "(py_strip text \<noteq> [] \<and> identify_vendor_and_get_regex e w text = (Inl exc, w') \<longrightarrow>
      resolve_vendor_context e w text = (fallback_context (env_object_id e) exc, w') \<and>
      get_structured_data_from_text e w text filename text_length page_count ts rid =
        (build_from_context e (fallback_context (env_object_id e) exc) text filename
           text_length page_count ts rid, w')) \<and>
   (py_strip text \<noteq> [] \<and>
    search_vendor_by_signals (env_matches e) (vendors w) (env_signals e text) =
      Some (vid, matched_by) \<and>
    \<not> py_truthy (get_vendor_regex_patterns (templates w) vid) \<longrightarrow>
      get_structured_data_from_text e w text filename text_length page_count ts rid =
        (build_from_context e
           (fallback_context (env_object_id e)
              (ValueError ''Vendor found - But no regex for that vendor found in DB''))
           text filename text_length page_count ts rid, w)) \<and>
   ctx_vendor_name (fallback_context (env_object_id e) exc) =
     Some (JStr (ustr ''Unknown Vendor'')) \<and>
   ctx_vendor_id (fallback_context (env_object_id e) exc) = Some (env_object_id e) \<and>
   ctx_regex (fallback_context (env_object_id e) exc) = generic_regex \<and>
   ctx_identification_error (fallback_context (env_object_id e) exc) = Some exc \<and>
   (\<exists>d. generic_regex = JObj d \<and> length (flatten_patterns d) = 11)"
proof (intro conjI impI)
  assume a: "py_strip text \<noteq> [] \<and> identify_vendor_and_get_regex e w text = (Inl exc, w')"
  then show r: "resolve_vendor_context e w text = (fallback_context (env_object_id e) exc, w')"
    by (simp add: resolve_vendor_context_def)
  from a show "get_structured_data_from_text e w text filename text_length page_count ts rid =
        (build_from_context e (fallback_context (env_object_id e) exc) text filename
           text_length page_count ts rid, w')"
    by (simp add: get_structured_data_from_text_def r)
next
  assume a: "py_strip text \<noteq> [] \<and>
    search_vendor_by_signals (env_matches e) (vendors w) (env_signals e text) =
      Some (vid, matched_by) \<and>
    \<not> py_truthy (get_vendor_regex_patterns (templates w) vid)"
  then have "identify_vendor_and_get_regex e w text =
           (Inl (ValueError ''Vendor found - But no regex for that vendor found in DB''), w)"
    by (intro identify_known_vendor_no_template[of e w _ vid matched_by]) simp_all
  then show "get_structured_data_from_text e w text filename text_length page_count ts rid =
        (build_from_context e
           (fallback_context (env_object_id e)
              (ValueError ''Vendor found - But no regex for that vendor found in DB''))
           text filename text_length page_count ts rid, w)"
    using a by (simp add: get_structured_data_from_text_def resolve_vendor_context_def)
next
  show "\<exists>d. generic_regex = JObj d \<and> length (flatten_patterns d) = 11"
    by (rule generic_regex_flat)
qed (simp_all add: fallback_context_def)

theorem resolution_failure_falls_back_witness:
  "py_strip (ustr ''Invoice 1'') \<noteq> [] \<and>
   identify_vendor_and_get_regex
     (sample_env (sample_signals None None) (\<lambda>p. Inl (CollaboratorError ''quota exceeded'')))
     \<lparr>vendors = [], templates = [], llm_log = []\<rparr> (ustr ''Invoice 1'') =
     (Inl (CollaboratorError ''quota exceeded''),
      \<lparr>vendors = [], templates = [], llm_log = [Phase1Prompt (ustr ''Invoice 1'')]\<rparr>) \<and>
   get_structured_data_from_text
     (sample_env (sample_signals None None) (\<lambda>p. Inl (CollaboratorError ''quota exceeded'')))
     \<lparr>vendors = [], templates = [], llm_log = []\<rparr> (ustr ''Invoice 1'')
     (ustr ''a.pdf'') 9 1 (ustr ''2024-01-31'') (ustr ''r1'') =
     (Inr (\<lparr>inv_filename = ustr ''a.pdf'', inv_restaurant_id = ustr ''r1'',
            inv_vendor_id = Some 99, inv_invoice_number = None, inv_invoice_date = None,
            inv_invoice_total_amount = None, inv_text_length = 9, inv_page_count = 1,
            inv_extraction_timestamp = ustr ''2024-01-31'', inv_order_date = None\<rparr>, []),
      \<lparr>vendors = [], templates = [], llm_log = [Phase1Prompt (ustr ''Invoice 1'')]\<rparr>)"
proof -
  let ?e = "sample_env (sample_signals None None) (\<lambda>p. Inl (CollaboratorError ''quota exceeded''))"
  let ?w = "\<lparr>vendors = [], templates = [], llm_log = []\<rparr>"
  let ?w' = "\<lparr>vendors = [], templates = [], llm_log = [Phase1Prompt (ustr ''Invoice 1'')]\<rparr>"
  have ne: "py_strip (ustr ''Invoice 1'') \<noteq> []"
    by (simp add: py_strip_def py_lstrip_def py_rstrip_def py_isspace_def ustr_def)
  have i: "identify_vendor_and_get_regex ?e ?w (ustr ''Invoice 1'') =
     (Inl (CollaboratorError ''quota exceeded''), ?w')"
    by (simp add: identify_vendor_and_get_regex_def sample_env_def sample_search_none
        llm_phase1_extract_def)
  have b: "build_from_context ?e (fallback_context (env_object_id ?e) (CollaboratorError ''quota exceeded''))
      (ustr ''Invoice 1'') (ustr ''a.pdf'') 9 1 (ustr ''2024-01-31'') (ustr ''r1'') =
     Inr (\<lparr>inv_filename = ustr ''a.pdf'', inv_restaurant_id = ustr ''r1'',
            inv_vendor_id = Some 99, inv_invoice_number = None, inv_invoice_date = None,
            inv_invoice_total_amount = None, inv_text_length = 9, inv_page_count = 1,
            inv_extraction_timestamp = ustr ''2024-01-31'', inv_order_date = None\<rparr>, [])"
    by (simp add: build_from_context_def sample_env_def fallback_context_def
        build_invoice_record_def build_line_items_records_def)
  from resolution_failure_falls_back[of "ustr ''Invoice 1''" ?e ?w "CollaboratorError ''quota exceeded''" ?w'
      "ustr ''a.pdf''" 9 1 "ustr ''2024-01-31''" "ustr ''r1''"] ne i
  have "get_structured_data_from_text ?e ?w (ustr ''Invoice 1'')
     (ustr ''a.pdf'') 9 1 (ustr ''2024-01-31'') (ustr ''r1'') =
     (build_from_context ?e (fallback_context (env_object_id ?e) (CollaboratorError ''quota exceeded''))
      (ustr ''Invoice 1'') (ustr ''a.pdf'') 9 1 (ustr ''2024-01-31'') (ustr ''r1''), ?w')"
    by blast
  with ne i b show ?thesis by simp
qed

section \<open>Properties of materialization\<close>

subsection \<open>Validated groups\<close>

lemma check_pages_ok:
  "check_pages n cov g = Inr cov' \<Longrightarrow>
     set cov' = set g \<union> set cov \<and> (\<forall>i \<in> set g. 1 \<le> i \<and> i \<le> n) \<and> set g \<inter> set cov = {}"
proof (induction g arbitrary: cov)
  case Nil
  then show ?case by simp
next
  case (Cons i g)
  have r: "1 \<le> i \<and> i \<le> n \<and> i \<notin> set cov"
  proof (rule ccontr)
    assume "\<not> ?thesis"
    then have "\<exists>m. check_pages n cov (i # g) = Inl m" by auto
    with Cons.prems show False by auto
  qed
  then have c: "check_pages n (i # cov) g = Inr cov'" using Cons.prems by auto
  from Cons.IH[OF c] have s: "set cov' = set g \<union> set (i # cov)"
    and rg: "\<forall>i \<in> set g. 1 \<le> i \<and> i \<le> n" and dj: "set g \<inter> set (i # cov) = {}"
    by blast+
  have "set cov' = set (i # g) \<union> set cov" using s by auto
  moreover have "\<forall>j \<in> set (i # g). 1 \<le> j \<and> j \<le> n" using rg r by simp
  moreover have "set (i # g) \<inter> set cov = {}" using dj r by auto
  ultimately show ?case by blast
qed

lemma validate_groups_ok:
  "validate_groups n cov gs = Inr vs \<Longrightarrow>
     (\<forall>g \<in> set vs. g \<noteq> [] \<and> consecutive g \<and> (\<forall>i \<in> set g. 1 \<le> i \<and> i \<le> n) \<and>
        set g \<inter> set cov = {}) \<and>
     distinct (map hd vs) \<and> vs = filter (\<lambda>g. g \<noteq> []) gs"
proof (induction gs arbitrary: cov vs)
  case Nil
  then show ?case by simp
next
  case (Cons grp rest)
  show ?case
  proof (cases "grp = []")
    case True
    with Cons.prems have "validate_groups n cov rest = Inr vs" by simp
    from Cons.IH[OF this] have
      a: "\<forall>g \<in> set vs. g \<noteq> [] \<and> consecutive g \<and> (\<forall>i \<in> set g. 1 \<le> i \<and> i \<le> n) \<and>
            set g \<inter> set cov = {}"
      and b: "distinct (map hd vs)" and f: "vs = filter (\<lambda>g. g \<noteq> []) rest" by blast+
    have "filter (\<lambda>g. g \<noteq> []) (grp # rest) = filter (\<lambda>g. g \<noteq> []) rest"
      using True by simp
    with f have "vs = filter (\<lambda>g. g \<noteq> []) (grp # rest)" by simp
    with a b show ?thesis by blast
  next
    case False
    have c: "consecutive grp"
    proof (rule ccontr)
      assume "\<not> consecutive grp"
      then have "\<exists>m. validate_groups n cov (grp # rest) = Inl m" using False by simp
      with Cons.prems show False by simp
    qed
    obtain cov' where cp: "check_pages n cov grp = Inr cov'"
    proof (cases "check_pages n cov grp")
      case (Inl e)
      then have "validate_groups n cov (grp # rest) = Inl e" using False c by simp
      with Cons.prems show ?thesis by simp
    next
      case (Inr cv)
      then show ?thesis using that by blast
    qed
    obtain vs' where v: "validate_groups n cov' rest = Inr vs'" and vs: "vs = grp # vs'"
    proof (cases "validate_groups n cov' rest")
      case (Inl e)
      then have "validate_groups n cov (grp # rest) = Inl e" using False c cp by simp
      with Cons.prems show ?thesis by simp
    next
      case (Inr w)
      then have "validate_groups n cov (grp # rest) = Inr (grp # w)" using False c cp by simp
      with Cons.prems Inr show ?thesis using that by simp
    qed
    from check_pages_ok[OF cp] have cov': "set cov' = set grp \<union> set cov"
      and rng: "\<forall>i \<in> set grp. 1 \<le> i \<and> i \<le> n"
      and dj: "set grp \<inter> set cov = {}" by blast+
    from Cons.IH[OF v] have
      a: "\<forall>g \<in> set vs'. g \<noteq> [] \<and> consecutive g \<and> (\<forall>i \<in> set g. 1 \<le> i \<and> i \<le> n) \<and>
            set g \<inter> set cov' = {}"
      and b: "distinct (map hd vs')" and f: "vs' = filter (\<lambda>g. g \<noteq> []) rest" by blast+
    have h: "hd grp \<notin> hd ` set vs'"
    proof
      assume "hd grp \<in> hd ` set vs'"
      then obtain g' where g': "g' \<in> set vs'" "hd grp = hd g'" by blast
      then have "hd g' \<in> set g'" "set g' \<inter> set cov' = {}" using a by simp_all
      moreover have "hd grp \<in> set cov'" using False cov' by simp
      ultimately show False using g'(2) by auto
    qed
    have 1: "\<forall>g \<in> set vs. g \<noteq> [] \<and> consecutive g \<and> (\<forall>i \<in> set g. 1 \<le> i \<and> i \<le> n) \<and>
        set g \<inter> set cov = {}"
    proof
      fix g assume "g \<in> set vs"
      then consider "g = grp" | "g \<in> set vs'" using vs by auto
      then show "g \<noteq> [] \<and> consecutive g \<and> (\<forall>i \<in> set g. 1 \<le> i \<and> i \<le> n) \<and> set g \<inter> set cov = {}"
      proof cases
        case 1
        then show ?thesis using False c rng dj by simp
      next
        case 2
        then have "set g \<inter> set cov' = {}" using a by simp
        then have "set g \<inter> set cov = {}" using cov' by auto
        then show ?thesis using a 2 by simp
      qed
    qed
    have 2: "distinct (map hd vs)" using b h vs by simp
    have 3: "vs = filter (\<lambda>g. g \<noteq> []) (grp # rest)" using f vs False by simp
    from 1 2 3 show ?thesis by blast
  qed
qed

lemma read_pages_in_range:
  "\<forall>i \<in> set g. 1 \<le> i \<and> i \<le> n \<Longrightarrow> read_pages n g = Some g"
proof (induction g)
  case Nil
  then show ?case by simp
next
  case (Cons i g)
  then have "page_at n i = Some i" by (simp add: page_at_def)
  then show ?case using Cons by simp
qed

subsection \<open>File names\<close>

lemma dec_snoc: "dec (ds @ [d]) = 10 * dec ds + d"
  by (simp add: dec_def)

lemma nat_to_str_digits: "\<forall>c \<in> set (nat_to_str n). is_digit c"
proof (induction n rule: nat_to_str.induct)
  case (1 n)
  show ?case
  proof (cases "n < 10")
    case True
    then show ?thesis by (subst nat_to_str.simps) (simp add: is_digit_def)
  next
    case False
    have "n mod 10 < 10" by simp
    then have "is_digit (48 + n mod 10)" unfolding is_digit_def by linarith
    then show ?thesis using False 1 by (subst nat_to_str.simps) auto
  qed
qed

lemma nat_to_str_nonempty: "nat_to_str n \<noteq> []"
  by (subst nat_to_str.simps) simp

lemma nat_to_str_dec: "dec (map digit_val (nat_to_str n)) = n"
proof (induction n rule: nat_to_str.induct)
  case (1 n)
  show ?case
  proof (cases "n < 10")
    case True
    then show ?thesis by (subst nat_to_str.simps) (simp add: dec_def digit_val_def)
  next
    case False
    have "digit_val (48 + n mod 10) = n mod 10" by (simp add: digit_val_def)
    then show ?thesis
      using 1 False by (subst nat_to_str.simps) (simp add: dec_snoc)
  qed
qed

lemma nat_to_str_inj:
  assumes "nat_to_str m = nat_to_str n"
  shows "m = n"
proof -
  have "dec (map digit_val (nat_to_str m)) = dec (map digit_val (nat_to_str n))"
    using assms by simp
  then show ?thesis by (simp only: nat_to_str_dec)
qed

lemma digits_prefix_unique:
  assumes "\<forall>c \<in> set ds. is_digit c" "\<forall>c \<in> set ds'. is_digit c"
    "t \<noteq> []" "\<not> is_digit (hd t)" "t' \<noteq> []" "\<not> is_digit (hd t')" "ds @ t = ds' @ t'"
  shows "ds = ds'"
proof -
  have "takeWhile is_digit (ds @ t) = ds" using assms(1,3,4)
    by (cases t) (simp_all add: takeWhile_append2 takeWhile_tail)
  moreover have "takeWhile is_digit (ds' @ t') = ds'" using assms(2,5,6)
    by (cases t') (simp_all add: takeWhile_append2 takeWhile_tail)
  ultimately show ?thesis using assms(7) by simp
qed

lemma group_filename_tail: "group_filename b g = b @ name_tail g"
  by (simp add: group_filename_def name_tail_def Let_def)

lemma name_tail_shape:
  "\<exists>t. name_tail g = ustr ''-page'' @ nat_to_str (hd g) @ t \<and> t \<noteq> [] \<and> \<not> is_digit (hd t)"
proof (cases "hd g = last g")
  case True
  have "ustr ''.pdf'' \<noteq> [] \<and> \<not> is_digit (hd (ustr ''.pdf''))"
    by (simp add: ustr_def is_digit_def)
  moreover have "name_tail g = ustr ''-page'' @ nat_to_str (hd g) @ ustr ''.pdf''"
    using True by (simp add: name_tail_def)
  ultimately show ?thesis by blast
next
  case False
  have "ustr ''-'' @ nat_to_str (last g) @ ustr ''.pdf'' \<noteq> [] \<and>
        \<not> is_digit (hd (ustr ''-'' @ nat_to_str (last g) @ ustr ''.pdf''))"
    by (simp add: ustr_def is_digit_def)
  moreover have "name_tail g =
      ustr ''-page'' @ nat_to_str (hd g) @ (ustr ''-'' @ nat_to_str (last g) @ ustr ''.pdf'')"
    using False by (simp add: name_tail_def)
  ultimately show ?thesis by blast
qed

lemma name_tail_pdf: "\<exists>y. name_tail g = y @ ustr ''.pdf'' \<and> y \<noteq> []"
proof (cases "hd g = last g")
  case True
  then have "name_tail g = (ustr ''-page'' @ nat_to_str (hd g)) @ ustr ''.pdf''"
    by (simp add: name_tail_def)
  moreover have "ustr ''-page'' @ nat_to_str (hd g) \<noteq> []" by (simp add: ustr_def)
  ultimately show ?thesis by blast
next
  case False
  then have "name_tail g = (ustr ''-page'' @ nat_to_str (hd g) @ ustr ''-'' @ nat_to_str (last g)) @ ustr ''.pdf''"
    by (simp add: name_tail_def)
  moreover have "ustr ''-page'' @ nat_to_str (hd g) @ ustr ''-'' @ nat_to_str (last g) \<noteq> []"
    by (simp add: ustr_def)
  ultimately show ?thesis by blast
qed

lemma name_tail_hd_inj:
  assumes "name_tail g = name_tail g'"
  shows "hd g = hd g'"
proof -
  obtain t where t: "name_tail g = ustr ''-page'' @ nat_to_str (hd g) @ t" "t \<noteq> []" "\<not> is_digit (hd t)"
    using name_tail_shape by blast
  obtain t' where t': "name_tail g' = ustr ''-page'' @ nat_to_str (hd g') @ t'" "t' \<noteq> []" "\<not> is_digit (hd t')"
    using name_tail_shape by blast
  from assms t(1) t'(1) have "nat_to_str (hd g) @ t = nat_to_str (hd g') @ t'" by simp
  then have "nat_to_str (hd g) = nat_to_str (hd g')"
    using digits_prefix_unique[OF nat_to_str_digits nat_to_str_digits t(2,3) t'(2,3)] by blast
  then show ?thesis by (rule nat_to_str_inj)
qed

lemma final_path_inj:
  assumes "final_path b g = final_path b g'"
  shows "hd g = hd g'"
proof -
  from assms have "name_tail g = name_tail g'"
    by (simp add: final_path_def group_filename_tail)
  then show ?thesis by (rule name_tail_hd_inj)
qed

lemma name_tail_at_5: "name_tail g ! 5 = hd (nat_to_str (hd g))"
proof -
  obtain t where t: "name_tail g = ustr ''-page'' @ nat_to_str (hd g) @ t"
    using name_tail_shape by blast
  have "length (ustr ''-page'') = 5" by (simp add: ustr_def)
  then have "name_tail g ! 5 = (nat_to_str (hd g) @ t) ! 0"
    unfolding t by (simp add: nth_append)
  then show ?thesis using nat_to_str_nonempty[of "hd g"]
    by (cases "nat_to_str (hd g)") simp_all
qed

lemma temp_not_final: "temp_path b g' \<noteq> final_path b g"
proof
  assume "temp_path b g' = final_path b g"
  then have eq: "(ustr ''.tmp-'' @ b) @ name_tail g' = b @ name_tail g"
    by (simp add: temp_path_def final_path_def group_filename_tail)
  have l5: "length (ustr ''.tmp-'') = 5" by (simp add: ustr_def)
  from eq obtain us where
    "(ustr ''.tmp-'' @ b = b @ us \<and> us @ name_tail g' = name_tail g) \<or>
     ((ustr ''.tmp-'' @ b) @ us = b \<and> name_tail g' = us @ name_tail g)"
    unfolding append_eq_append_conv2 by blast
  then show False
  proof
    assume a: "ustr ''.tmp-'' @ b = b @ us \<and> us @ name_tail g' = name_tail g"
    then have "length (ustr ''.tmp-'' @ b) = length (b @ us)" by simp
    then have lu: "length us = 5" using l5 by simp
    obtain t' where t': "name_tail g' = ustr ''-page'' @ nat_to_str (hd g') @ t'"
      using name_tail_shape by blast
    have "name_tail g' ! 0 = 45" unfolding t' by (simp add: ustr_def)
    moreover have "name_tail g' \<noteq> []" unfolding t' by (simp add: ustr_def)
    ultimately have "(us @ name_tail g') ! 5 = 45" using lu by (simp add: nth_append)
    then have "hd (nat_to_str (hd g)) = 45" using a name_tail_at_5[of g] by simp
    moreover have "is_digit (hd (nat_to_str (hd g)))"
      using nat_to_str_digits[of "hd g"] nat_to_str_nonempty[of "hd g"]
      by (cases "nat_to_str (hd g)") simp_all
    ultimately show False by (simp add: is_digit_def)
  next
    assume "(ustr ''.tmp-'' @ b) @ us = b \<and> name_tail g' = us @ name_tail g"
    then have "length ((ustr ''.tmp-'' @ b) @ us) = length b" by simp
    then show False using l5 by simp
  qed
qed

lemma stem_pdf:
  assumes "x \<noteq> []"
  shows "stem (x @ ustr ''.pdf'') = x"
proof -
  have u: "x @ ustr ''.pdf'' = x @ [46] @ ustr ''pdf''" by (simp add: ustr_def)
  have "46 \<notin> set (ustr ''pdf'')" by (simp add: ustr_def)
  then have "rfind 46 (x @ [46] @ ustr ''pdf'') = int (length x)" by (rule rfind_last)
  moreover have "length (x @ [46] @ ustr ''pdf'') = length x + 4" by (simp add: ustr_def)
  ultimately show ?thesis using assms unfolding u by (simp add: stem_def)
qed

lemma original_not_final: "(d, name) \<noteq> final_path (stem name) g"
proof
  assume a: "(d, name) = final_path (stem name) g"
  obtain y where y: "name_tail g = y @ ustr ''.pdf''" "y \<noteq> []" using name_tail_pdf by blast
  have "name = snd (final_path (stem name) g)"
    using arg_cong[OF a, of snd] by (simp only: snd_conv)
  also have "\<dots> = (stem name @ y) @ ustr ''.pdf''"
    by (simp add: final_path_def group_filename_tail y)
  finally have n: "name = (stem name @ y) @ ustr ''.pdf''" .
  have "stem name @ y \<noteq> []" using y(2) by simp
  then have "stem ((stem name @ y) @ ustr ''.pdf'') = stem name @ y" by (rule stem_pdf)
  with arg_cong[OF n, of stem] have "stem name = stem name @ y" by (rule trans)
  then show False using y(2) by simp
qed

lemma original_not_temp: "(d, name) \<noteq> temp_path (stem name) g"
proof
  assume a: "(d, name) = temp_path (stem name) g"
  obtain y where y: "name_tail g = y @ ustr ''.pdf''" "y \<noteq> []" using name_tail_pdf by blast
  have "name = snd (temp_path (stem name) g)"
    using arg_cong[OF a, of snd] by (simp only: snd_conv)
  also have "\<dots> = (ustr ''.tmp-'' @ stem name @ y) @ ustr ''.pdf''"
    by (simp add: temp_path_def group_filename_tail y)
  finally have n: "name = (ustr ''.tmp-'' @ stem name @ y) @ ustr ''.pdf''" .
  have "ustr ''.tmp-'' @ stem name @ y \<noteq> []" using y(2) by simp
  then have "stem ((ustr ''.tmp-'' @ stem name @ y) @ ustr ''.pdf'') = ustr ''.tmp-'' @ stem name @ y"
    by (rule stem_pdf)
  with arg_cong[OF n, of stem] have "stem name = ustr ''.tmp-'' @ stem name @ y" by (rule trans)
  then have "length (stem name) = length (ustr ''.tmp-'' @ stem name @ y)" by (rule arg_cong)
  then show False by (simp add: ustr_def)
qed

subsection \<open>The loop and the clean-up\<close>

lemma write_group_frame:
  assumes "write_group os n b fs g = (r, fs')" and "q \<noteq> temp_path b g" and "q \<noteq> final_path b g"
  shows "fs' q = fs q"
proof (cases "read_pages n g")
  case None
  then show ?thesis using assms by (simp add: write_group_def)
next
  case (Some pages)
  then show ?thesis using assms
    by (cases "io_fault os (group_filename b g)") (auto simp add: write_group_def)
qed

lemma write_group_error_frame:
  assumes "write_group os n b fs g = (Inl e, fs')" and "q \<noteq> temp_path b g"
  shows "fs' q = fs q"
proof (cases "read_pages n g")
  case None
  then show ?thesis using assms by (simp add: write_group_def)
next
  case (Some pages)
  then show ?thesis using assms
    by (cases "io_fault os (group_filename b g)") (auto simp add: write_group_def)
qed

lemma write_group_success:
  assumes "write_group os n b fs g = (Inr f, fs')"
  shows "f = final_path b g \<and> io_fault os (group_filename b g) = NoFault \<and>
         (\<exists>pages. read_pages n g = Some pages \<and> fs' f = Some (Pdf pages))"
proof (cases "read_pages n g")
  case None
  then show ?thesis using assms by (simp add: write_group_def)
next
  case (Some pages)
  then show ?thesis using assms
    by (cases "io_fault os (group_filename b g)") (auto simp add: write_group_def)
qed

lemma split_loop_created:
  "split_loop os n b fs cr gs = (err, fs', cr') \<Longrightarrow>
     set cr \<subseteq> set cr' \<and> set cr' \<subseteq> set cr \<union> final_path b ` set gs"
proof (induction gs arbitrary: fs cr)
  case Nil
  then show ?case by simp
next
  case (Cons grp rest)
  show ?case
  proof (cases "grp = []")
    case True
    with Cons.prems have "split_loop os n b fs cr rest = (err, fs', cr')" by simp
    from Cons.IH[OF this] show ?thesis by auto
  next
    case False
    obtain r fs1 where w: "write_group os n b fs grp = (r, fs1)" by (cases "write_group os n b fs grp")
    show ?thesis
    proof (cases r)
      case (Inl e)
      with w False Cons.prems have "cr' = cr" by simp
      then show ?thesis by auto
    next
      case (Inr f)
      with w False Cons.prems have s: "split_loop os n b fs1 (cr @ [f]) rest = (err, fs', cr')"
        by simp
      have f: "f = final_path b grp" using write_group_success w Inr by blast
      from Cons.IH[OF s] show ?thesis using f by auto
    qed
  qed
qed

lemma split_loop_frame:
  "split_loop os n b fs cr gs = (err, fs', cr') \<Longrightarrow>
     \<forall>g \<in> set gs. q \<noteq> temp_path b g \<Longrightarrow> q \<notin> set cr' \<Longrightarrow> fs' q = fs q"
proof (induction gs arbitrary: fs cr)
  case Nil
  then show ?case by simp
next
  case (Cons grp rest)
  have t: "\<forall>g \<in> set rest. q \<noteq> temp_path b g" and tg: "q \<noteq> temp_path b grp"
    using Cons.prems(2) by simp_all
  show ?case
  proof (cases "grp = []")
    case True
    with Cons.prems have "split_loop os n b fs cr rest = (err, fs', cr')" by simp
    from Cons.IH[OF this t Cons.prems(3)] show ?thesis .
  next
    case False
    obtain r fs1 where w: "write_group os n b fs grp = (r, fs1)" by (cases "write_group os n b fs grp")
    show ?thesis
    proof (cases r)
      case (Inl e)
      with w False Cons.prems(1) have "fs' = fs1" by simp
      moreover have "fs1 q = fs q" using write_group_error_frame w Inl tg by blast
      ultimately show ?thesis by simp
    next
      case (Inr f)
      with w False Cons.prems(1) have s: "split_loop os n b fs1 (cr @ [f]) rest = (err, fs', cr')"
        by simp
      have f: "f = final_path b grp" using write_group_success w Inr by blast
      have "f \<in> set cr'" using split_loop_created[OF s] by auto
      then have "q \<noteq> final_path b grp" using Cons.prems(3) f by auto
      then have "fs1 q = fs q" using write_group_frame w tg by blast
      moreover have "fs' q = fs1 q" using Cons.IH[OF s t Cons.prems(3)] .
      ultimately show ?thesis by simp
    qed
  qed
qed

lemma split_loop_untouched:
  "split_loop os n b fs cr gs = (err, fs', cr') \<Longrightarrow>
     \<forall>g \<in> set gs. q \<noteq> temp_path b g \<Longrightarrow> \<forall>g \<in> set gs. g \<noteq> [] \<longrightarrow> q \<noteq> final_path b g \<Longrightarrow>
     fs' q = fs q"
proof (induction gs arbitrary: fs cr)
  case Nil
  then show ?case by simp
next
  case (Cons grp rest)
  have t: "\<forall>g \<in> set rest. q \<noteq> temp_path b g" and tg: "q \<noteq> temp_path b grp"
    using Cons.prems(2) by simp_all
  have u: "\<forall>g \<in> set rest. g \<noteq> [] \<longrightarrow> q \<noteq> final_path b g" using Cons.prems(3) by simp
  show ?case
  proof (cases "grp = []")
    case True
    with Cons.prems have "split_loop os n b fs cr rest = (err, fs', cr')" by simp
    from Cons.IH[OF this t u] show ?thesis .
  next
    case False
    then have ug: "q \<noteq> final_path b grp" using Cons.prems(3) by simp
    obtain r fs1 where w: "write_group os n b fs grp = (r, fs1)" by (cases "write_group os n b fs grp")
    have 1: "fs1 q = fs q" using write_group_frame w tg ug by blast
    show ?thesis
    proof (cases r)
      case (Inl e)
      with w False Cons.prems(1) have "fs' = fs1" by simp
      with 1 show ?thesis by simp
    next
      case (Inr f)
      with w False Cons.prems(1) have s: "split_loop os n b fs1 (cr @ [f]) rest = (err, fs', cr')"
        by simp
      from Cons.IH[OF s t u] 1 show ?thesis by simp
    qed
  qed
qed

lemma split_loop_success:
  "split_loop os n b fs cr gs = (None, fs', cr') \<Longrightarrow> g \<in> set gs \<Longrightarrow> g \<noteq> [] \<Longrightarrow>
     \<forall>g' \<in> set gs. g' \<noteq> [] \<longrightarrow> final_path b g' = final_path b g \<longrightarrow> g' = g \<Longrightarrow>
     io_fault os (group_filename b g) = NoFault \<and>
     (\<exists>pages. read_pages n g = Some pages \<and> fs' (final_path b g) = Some (Pdf pages))"
proof (induction gs arbitrary: fs cr)
  case Nil
  then show ?case by simp
next
  case (Cons grp rest)
  have u: "\<forall>g' \<in> set rest. g' \<noteq> [] \<longrightarrow> final_path b g' = final_path b g \<longrightarrow> g' = g"
    using Cons.prems(4) by simp
  show ?case
  proof (cases "grp = []")
    case True
    with Cons.prems(1) have s: "split_loop os n b fs cr rest = (None, fs', cr')" by simp
    have "g \<in> set rest" using Cons.prems(2,3) True by auto
    from Cons.IH[OF s this Cons.prems(3) u] show ?thesis .
  next
    case False
    obtain r fs1 where w: "write_group os n b fs grp = (r, fs1)" by (cases "write_group os n b fs grp")
    show ?thesis
    proof (cases r)
      case (Inl e)
      with w False Cons.prems(1) show ?thesis by simp
    next
      case (Inr f)
      with w False Cons.prems(1) have s: "split_loop os n b fs1 (cr @ [f]) rest = (None, fs', cr')"
        by simp
      show ?thesis
      proof (cases "g \<in> set rest")
        case True
        from Cons.IH[OF s True Cons.prems(3) u] show ?thesis .
      next
        case False
        then have g: "g = grp" using Cons.prems(2) by simp
        from write_group_success w Inr g have f: "f = final_path b g"
          and nf: "io_fault os (group_filename b g) = NoFault"
          and "\<exists>pages. read_pages n g = Some pages \<and> fs1 f = Some (Pdf pages)" by blast+
        then obtain pages where pg: "read_pages n g = Some pages" "fs1 (final_path b g) = Some (Pdf pages)"
          by blast
        have a: "\<forall>g' \<in> set rest. final_path b g \<noteq> temp_path b g'"
          using temp_not_final by metis
        have c: "\<forall>g' \<in> set rest. g' \<noteq> [] \<longrightarrow> final_path b g \<noteq> final_path b g'"
          using u False by metis
        have "fs' (final_path b g) = fs1 (final_path b g)"
          using split_loop_untouched[OF s a c] .
        with pg nf show ?thesis by simp
      qed
    qed
  qed
qed

lemma cleanup_other:
  "q \<notin> set cr \<Longrightarrow> cleanup os fs cr q = fs q"
proof (induction cr arbitrary: fs)
  case Nil
  then show ?case by simp
next
  case (Cons f rest)
  then have "cleanup os (snd (unlink os fs f)) rest q = snd (unlink os fs f) q" by simp
  moreover have "snd (unlink os fs f) q = fs q" using Cons.prems by (simp add: unlink_def)
  ultimately show ?case by simp
qed

lemma cleanup_keeps_absent:
  "fs q = None \<Longrightarrow> cleanup os fs cr q = None"
proof (induction cr arbitrary: fs)
  case Nil
  then show ?case by simp
next
  case (Cons f rest)
  have "snd (unlink os fs f) q = None" using Cons.prems by (simp add: unlink_def)
  then have "cleanup os (snd (unlink os fs f)) rest q = None" by (rule Cons.IH)
  then show ?case by simp
qed

lemma cleanup_removes:
  "q \<in> set cr \<Longrightarrow> \<not> unlink_fails os q \<Longrightarrow> cleanup os fs cr q = None"
proof (induction cr arbitrary: fs)
  case Nil
  then show ?case by simp
next
  case (Cons f rest)
  show ?case
  proof (cases "q = f")
    case True
    then have "snd (unlink os fs f) q = None" using Cons.prems(2) by (simp add: unlink_def)
    then show ?thesis using cleanup_keeps_absent by simp
  next
    case False
    then have "q \<in> set rest" using Cons.prems(1) by simp
    from Cons.IH[OF this Cons.prems(2)] show ?thesis by simp
  qed
qed

lemma consecutive_last:
  "consecutive g \<Longrightarrow> g \<noteq> [] \<Longrightarrow> last g = hd g + (length g - 1)"
  by (induction g rule: consecutive.induct) auto

lemma single_page_group:
  assumes "consecutive g" and "g \<noteq> []"
  shows "hd g = last g \<longleftrightarrow> length g = 1"
proof -
  have "length g = 1 \<longleftrightarrow> length g - 1 = 0" using assms(2) by (cases g) auto
  moreover have "hd g = last g \<longleftrightarrow> length g - 1 = 0" using consecutive_last[OF assms] by simp
  ultimately show ?thesis by simp
qed

lemma group_filename_shape:
  assumes "consecutive g" and "g \<noteq> []"
  shows "group_filename b g =
           b @ ustr ''-page'' @ nat_to_str (hd g) @
           (if length g = 1 then [] else ustr ''-'' @ nat_to_str (last g)) @ ustr ''.pdf''"
proof (cases "length g = 1")
  case True
  then have "hd g = last g" using single_page_group[OF assms] by simp
  then show ?thesis using True by (simp add: group_filename_def)
next
  case False
  then have "hd g \<noteq> last g" using single_page_group[OF assms] by simp
  then show ?thesis using False by (simp add: group_filename_def)
qed

lemma original_after_loop:
  assumes l: "split_loop os n (stem (snd p)) files [] groups = (e, fs1, cr)"
  shows "cleanup os fs1 cr p = files p"
proof -
  let ?b = "stem (snd p)"
  have pf: "p \<noteq> final_path ?b h" for h using original_not_final[of "fst p" "snd p" h] by simp
  have pt: "p \<noteq> temp_path ?b h" for h using original_not_temp[of "fst p" "snd p" h] by simp
  have sub: "set cr \<subseteq> final_path ?b ` set groups" using split_loop_created[OF l] by simp
  have pc: "p \<notin> set cr" using sub pf by blast
  have "fs1 p = files p"
    by (rule split_loop_frame[OF l _ pc]) (simp add: pt)
  then show ?thesis using cleanup_other[OF pc] by simp
qed

lemma cleanup_after_loop:
  assumes l: "split_loop os n b files [] groups = (e, fs1, cr)"
  shows "cleanup os fs1 cr (final_path b g) = None \<or>
         unlink_fails os (final_path b g) \<or>
         cleanup os fs1 cr (final_path b g) = files (final_path b g)"
proof (cases "final_path b g \<in> set cr")
  case True
  then show ?thesis using cleanup_removes by blast
next
  case False
  have t: "\<forall>h \<in> set groups. final_path b g \<noteq> temp_path b h" using temp_not_final by metis
  have "fs1 (final_path b g) = files (final_path b g)" by (rule split_loop_frame[OF l t False])
  then show ?thesis using cleanup_other[OF False] by simp
qed

lemma split_success_state:
  assumes v: "validate_groups n [] raw = Inr groups"
    and l: "split_loop os n (stem (snd p)) files [] groups = (None, fs1, cr)"
    and g: "g \<in> set groups"
  shows "fs1 (final_path (stem (snd p)) g) = Some (Pdf g)"
    and "fs1 p = files p"
    and "distinct (map (final_path (stem (snd p))) groups)"
proof -
  let ?b = "stem (snd p)"
  from validate_groups_ok[OF v] have
    a: "\<forall>g \<in> set groups. g \<noteq> [] \<and> consecutive g \<and> (\<forall>i \<in> set g. 1 \<le> i \<and> i \<le> n) \<and>
          set g \<inter> set [] = {}"
    and d: "distinct (map hd groups)" by blast+
  have inj: "inj_on hd (set groups)" using d by (simp add: distinct_map)
  have fin: "h = h'" if "h \<in> set groups" "h' \<in> set groups" "final_path ?b h = final_path ?b h'" for h h'
  proof -
    have "hd h = hd h'" using final_path_inj that(3) by blast
    then show ?thesis using inj that(1,2) by (simp add: inj_on_def)
  qed
  have "inj_on (final_path ?b) (set groups)" using fin by (simp add: inj_on_def)
  moreover have "distinct groups" using d by (simp add: distinct_map)
  ultimately show "distinct (map (final_path ?b) groups)" by (simp add: distinct_map)
  have ne: "g \<noteq> []" and rg: "\<forall>i \<in> set g. 1 \<le> i \<and> i \<le> n" using a g by simp_all
  have u: "\<forall>g' \<in> set groups. g' \<noteq> [] \<longrightarrow> final_path ?b g' = final_path ?b g \<longrightarrow> g' = g"
    using fin g by blast
  from split_loop_success[OF l g ne u] obtain pages where
    "read_pages n g = Some pages" "fs1 (final_path ?b g) = Some (Pdf pages)" by blast
  then show "fs1 (final_path ?b g) = Some (Pdf g)" using read_pages_in_range[OF rg] by simp
  have pf: "p \<noteq> final_path ?b h" for h using original_not_final[of "fst p" "snd p" h] by simp
  have pt: "p \<noteq> temp_path ?b h" for h using original_not_temp[of "fst p" "snd p" h] by simp
  show "fs1 p = files p"
    by (rule split_loop_untouched[OF l]) (simp_all add: pt pf)
qed

subsection \<open>The sample run\<close>

lemma nat_to_str_1: "nat_to_str (Suc 0) = [49]"
  by (simp add: nat_to_str.simps[of "Suc 0"])

lemma nat_to_str_2: "nat_to_str 2 = [50]"
  by (simp add: nat_to_str.simps[of 2])

lemma sample_stem: "stem (snd sample_original) = ustr ''inv''"
proof -
  have "ustr ''inv.pdf'' = ustr ''inv'' @ ustr ''.pdf''" by (simp add: ustr_def)
  moreover have "ustr ''inv'' \<noteq> []" by (simp add: ustr_def)
  ultimately show ?thesis using stem_pdf[of "ustr ''inv''"] by (simp add: sample_original_def)
qed

lemma sample_names:
  "group_filename (ustr ''inv'') [Suc 0] = ustr ''inv-page1.pdf''"
  "group_filename (ustr ''inv'') [2] = ustr ''inv-page2.pdf''"
  by (simp_all add: group_filename_def nat_to_str_1 nat_to_str_2 ustr_def)

lemma sample_paths:
  "final_path (ustr ''inv'') [Suc 0] = (PROCESSED_DIR, ustr ''inv-page1.pdf'')"
  "final_path (ustr ''inv'') [2] = (PROCESSED_DIR, ustr ''inv-page2.pdf'')"
  "temp_path (ustr ''inv'') [Suc 0] = (PROCESSED_DIR, ustr ''.tmp-inv-page1.pdf'')"
  "temp_path (ustr ''inv'') [2] = (PROCESSED_DIR, ustr ''.tmp-inv-page2.pdf'')"
  by (simp_all add: final_path_def temp_path_def sample_names) (simp_all add: ustr_def)

lemma sample_path_neqs:
  "ustr ''inv-page1.pdf'' \<noteq> ustr ''inv-page2.pdf''"
  "ustr ''inv-page2.pdf'' \<noteq> ustr ''inv-page1.pdf''"
  "(PROCESSED_DIR, n) \<noteq> sample_original"
  "sample_original \<noteq> (PROCESSED_DIR, n)"
  by (simp_all add: ustr_def sample_original_def PROCESSED_DIR_def)

lemma sample_validated: "validate_groups 2 [] [[1], [], [2]] = Inr [[1], [2]]"
  by simp

lemma reliable_write:
  "write_group reliable_os 2 (ustr ''inv'') fs [Suc 0] =
     (Inr (PROCESSED_DIR, ustr ''inv-page1.pdf''),
      fs((PROCESSED_DIR, ustr ''.tmp-inv-page1.pdf'') := None,
         (PROCESSED_DIR, ustr ''inv-page1.pdf'') \<mapsto> Pdf [1]))"
  "write_group reliable_os 2 (ustr ''inv'') fs [2] =
     (Inr (PROCESSED_DIR, ustr ''inv-page2.pdf''),
      fs((PROCESSED_DIR, ustr ''.tmp-inv-page2.pdf'') := None,
         (PROCESSED_DIR, ustr ''inv-page2.pdf'') \<mapsto> Pdf [2]))"
  by (simp_all add: write_group_def page_at_def sample_names sample_paths reliable_os_def)

lemma faulty_write:
  "write_group faulty_os 2 (ustr ''inv'') fs [Suc 0] =
     (Inr (PROCESSED_DIR, ustr ''inv-page1.pdf''),
      fs((PROCESSED_DIR, ustr ''.tmp-inv-page1.pdf'') := None,
         (PROCESSED_DIR, ustr ''inv-page1.pdf'') \<mapsto> Pdf [1]))"
  "write_group faulty_os 2 (ustr ''inv'') fs [2] =
     (Inl (OSError ''write''), fs((PROCESSED_DIR, ustr ''.tmp-inv-page2.pdf'') \<mapsto> Partial))"
  by (simp_all add: write_group_def page_at_def sample_names sample_paths faulty_os_def
      sample_path_neqs)

lemma reliable_loop:
  "split_loop reliable_os 2 (ustr ''inv'') sample_files [] [[1], [2]] =
     (None,
      sample_files((PROCESSED_DIR, ustr ''.tmp-inv-page1.pdf'') := None,
                   (PROCESSED_DIR, ustr ''inv-page1.pdf'') \<mapsto> Pdf [1],
                   (PROCESSED_DIR, ustr ''.tmp-inv-page2.pdf'') := None,
                   (PROCESSED_DIR, ustr ''inv-page2.pdf'') \<mapsto> Pdf [2]),
      [(PROCESSED_DIR, ustr ''inv-page1.pdf''), (PROCESSED_DIR, ustr ''inv-page2.pdf'')])"
  by (simp add: reliable_write)

lemma faulty_loop:
  "split_loop faulty_os 2 (ustr ''inv'') sample_files [] [[1], [2]] =
     (Some (OSError ''write''),
      sample_files((PROCESSED_DIR, ustr ''.tmp-inv-page1.pdf'') := None,
                   (PROCESSED_DIR, ustr ''inv-page1.pdf'') \<mapsto> Pdf [1],
                   (PROCESSED_DIR, ustr ''.tmp-inv-page2.pdf'') \<mapsto> Partial),
      [(PROCESSED_DIR, ustr ''inv-page1.pdf'')])"
  by (simp add: faulty_write)

lemma reliable_run:
  "split_pdf_by_page_groups reliable_os 2 sample_original sample_files [[1], [2]] =
     (None,
      (sample_files((PROCESSED_DIR, ustr ''.tmp-inv-page1.pdf'') := None,
                    (PROCESSED_DIR, ustr ''inv-page1.pdf'') \<mapsto> Pdf [1],
                    (PROCESSED_DIR, ustr ''.tmp-inv-page2.pdf'') := None,
                    (PROCESSED_DIR, ustr ''inv-page2.pdf'') \<mapsto> Pdf [2]))
        (sample_original := None))"
  unfolding split_pdf_by_page_groups_def sample_stem reliable_loop
  by (simp add: unlink_def sample_path_neqs reliable_os_def sample_files_def)

lemma faulty_run:
  "split_pdf_by_page_groups faulty_os 2 sample_original sample_files [[1], [2]] =
     (Some (OSError ''write''),
      sample_files((PROCESSED_DIR, ustr ''.tmp-inv-page1.pdf'') := None,
                   (PROCESSED_DIR, ustr ''inv-page1.pdf'') \<mapsto> Pdf [1],
                   (PROCESSED_DIR, ustr ''.tmp-inv-page2.pdf'') \<mapsto> Partial))"
  unfolding split_pdf_by_page_groups_def sample_stem faulty_loop
  by (simp add: unlink_def faulty_os_def)

subsection \<open>All or nothing\<close>

text \<open>
  Claim C9, with the clean-up as the code performs it. Let \<open>groups\<close> be the validated
  groups that \<open>process_multi_page_pdf\<close> hands to \<open>split_pdf_by_page_groups\<close> (the non-empty
  groups of the detector's answer).

  \<^item> If the function returns without an exception, the original is removed and every group
    has its own output file in the processed area, holding exactly the pages of the group
    and named \<open>{stem}-page{start}.pdf\<close> for a group of one page and
    \<open>{stem}-page{start}-{end}.pdf\<close> otherwise; different groups have different files.
  \<^item> If it raises, the original is as it was before the call, and each output path either
    does not exist, or could not be removed (the removal failed, which the code only logs),
    or was never written and is as it was before the call.
\<close>

theorem split_pdf_all_or_nothing:
  assumes v: "validate_groups num_pages [] raw_groups = Inr groups"
    and r: "split_pdf_by_page_groups os num_pages p files groups = (err, files')"
  shows "(err = None \<longrightarrow>
            files' p = None \<and>
            groups = filter (\<lambda>g. g \<noteq> []) raw_groups \<and>
            distinct (map (final_path (stem (snd p))) groups) \<and>
            (\<forall>g \<in> set groups.
               files' (final_path (stem (snd p)) g) = Some (Pdf g) \<and>
               final_path (stem (snd p)) g =
                 (PROCESSED_DIR,
                  stem (snd p) @ ustr ''-page'' @ nat_to_str (hd g) @
                  (if length g = 1 then [] else ustr ''-'' @ nat_to_str (last g)) @
                  ustr ''.pdf''))) \<and>
         (err \<noteq> None \<longrightarrow>
            files' p = files p \<and>
            (\<forall>g \<in> set groups.
               files' (final_path (stem (snd p)) g) = None \<or>
               unlink_fails os (final_path (stem (snd p)) g) \<or>
               files' (final_path (stem (snd p)) g) = files (final_path (stem (snd p)) g)))"
proof -
  let ?b = "stem (snd p)"
  obtain e fs1 cr where l: "split_loop os num_pages ?b files [] groups = (e, fs1, cr)"
    by (cases "split_loop os num_pages ?b files [] groups")
  from validate_groups_ok[OF v] have
    a: "\<forall>g \<in> set groups. g \<noteq> [] \<and> consecutive g \<and> (\<forall>i \<in> set g. 1 \<le> i \<and> i \<le> num_pages) \<and>
          set g \<inter> set [] = {}"
    and f: "groups = filter (\<lambda>g. g \<noteq> []) raw_groups" by blast+
  have fail: "files' p = files p \<and>
      (\<forall>g \<in> set groups.
         files' (final_path ?b g) = None \<or> unlink_fails os (final_path ?b g) \<or>
         files' (final_path ?b g) = files (final_path ?b g))"
    if "files' = cleanup os fs1 cr"
    using original_after_loop[OF l] cleanup_after_loop[OF l] that by simp
  have pf: "p \<noteq> final_path ?b h" for h using original_not_final[of "fst p" "snd p" h] by simp
  show ?thesis
  proof (cases e)
    case (Some exc)
    with l r have "err = Some exc" "files' = cleanup os fs1 cr"
      by (simp_all add: split_pdf_by_page_groups_def)
    then show ?thesis using fail by simp
  next
    case None
    note l' = l[unfolded None]
    show ?thesis
    proof (cases "unlink_fails os p \<or> fs1 p = None")
      case True
      then have "unlink os fs1 p = (False, fs1)" by (simp add: unlink_def)
      with l' r have "err = Some (OSError ''unlink'')" "files' = cleanup os fs1 cr"
        by (simp_all add: split_pdf_by_page_groups_def)
      then show ?thesis using fail by simp
    next
      case False
      then have "unlink os fs1 p = (True, fs1(p := None))" by (simp add: unlink_def)
      with l' r have e: "err = None" and fs: "files' = fs1(p := None)"
        by (simp_all add: split_pdf_by_page_groups_def)
      have 1: "files' p = None" using fs by simp
      have 2: "distinct (map (final_path ?b) groups)"
      proof (cases groups)
        case Nil
        then show ?thesis by simp
      next
        case (Cons g gs)
        then have "g \<in> set groups" by simp
        from split_success_state(3)[OF v l' this] show ?thesis .
      qed
      have 3: "files' (final_path ?b g) = Some (Pdf g) \<and>
               final_path ?b g =
                 (PROCESSED_DIR,
                  ?b @ ustr ''-page'' @ nat_to_str (hd g) @
                  (if length g = 1 then [] else ustr ''-'' @ nat_to_str (last g)) @
                  ustr ''.pdf'')" if g: "g \<in> set groups" for g
      proof -
        have "fs1 (final_path ?b g) = Some (Pdf g)" using split_success_state(1)[OF v l' g] .
        then have "files' (final_path ?b g) = Some (Pdf g)" using fs pf[of g] by simp
        moreover have cg: "consecutive g" "g \<noteq> []" using a g by simp_all
        have "final_path ?b g =
                 (PROCESSED_DIR,
                  ?b @ ustr ''-page'' @ nat_to_str (hd g) @
                  (if length g = 1 then [] else ustr ''-'' @ nat_to_str (last g)) @
                  ustr ''.pdf'')"
          unfolding final_path_def using group_filename_shape[OF cg, of ?b] by (rule arg_cong)
        ultimately show ?thesis by simp
      qed
      from e 1 2 3 f show ?thesis by blast
    qed
  qed
qed

theorem split_pdf_all_or_nothing_witness:
  "validate_groups 2 [] [[1], [], [2]] = Inr [[1], [2]] \<and>
   fst (split_pdf_by_page_groups reliable_os 2 sample_original sample_files [[1], [2]]) = None \<and>
   snd (split_pdf_by_page_groups reliable_os 2 sample_original sample_files [[1], [2]])
     sample_original = None \<and>
   snd (split_pdf_by_page_groups reliable_os 2 sample_original sample_files [[1], [2]])
     (PROCESSED_DIR, ustr ''inv-page1.pdf'') = Some (Pdf [1]) \<and>
   snd (split_pdf_by_page_groups reliable_os 2 sample_original sample_files [[1], [2]])
     (PROCESSED_DIR, ustr ''inv-page2.pdf'') = Some (Pdf [2]) \<and>
   fst (split_pdf_by_page_groups faulty_os 2 sample_original sample_files [[1], [2]]) =
     Some (OSError ''write'') \<and>
   snd (split_pdf_by_page_groups faulty_os 2 sample_original sample_files [[1], [2]])
     sample_original = Some (Pdf [1, 2])"
proof -
  let ?r = "split_pdf_by_page_groups reliable_os 2 sample_original sample_files [[1], [2]]"
  let ?f = "split_pdf_by_page_groups faulty_os 2 sample_original sample_files [[1], [2]]"
  have e: "fst ?r = None" unfolding reliable_run by simp
  have r: "?r = (fst ?r, snd ?r)" by simp
  have ef: "fst ?f = Some (OSError ''write'')" unfolding faulty_run by simp
  have f: "?f = (fst ?f, snd ?f)" by simp
  from split_pdf_all_or_nothing[OF sample_validated r] e
  have 1: "snd ?r sample_original = None"
    and 2: "\<forall>g \<in> set [[1], [2]].
              snd ?r (final_path (stem (snd sample_original)) g) = Some (Pdf g)"
    by blast+
  from 2 have 3: "snd ?r (PROCESSED_DIR, ustr ''inv-page1.pdf'') = Some (Pdf [1])"
    and 4: "snd ?r (PROCESSED_DIR, ustr ''inv-page2.pdf'') = Some (Pdf [2])"
    by (simp_all add: sample_stem sample_paths)
  from split_pdf_all_or_nothing[OF sample_validated f] ef
  have "snd ?f sample_original = sample_files sample_original" by simp
  then have 5: "snd ?f sample_original = Some (Pdf [1, 2])" by (simp add: sample_files_def)
  from sample_validated e 1 3 4 ef 5 show ?thesis by blast
qed

text \<open>
  The sentence ``every already-created output file is deleted'' does not hold when a
  removal fails: on the faulty system the call raises the write error of the second
  group, and the first output, which did not exist before the call, is still there.
\<close>

theorem cleanup_failure_counterexample:
  "validate_groups 2 [] [[1], [2]] = Inr [[1], [2]] \<and>
   sample_files (PROCESSED_DIR, ustr ''inv-page1.pdf'') = None \<and>
   fst (split_pdf_by_page_groups faulty_os 2 sample_original sample_files [[1], [2]]) =
     Some (OSError ''write'') \<and>
   snd (split_pdf_by_page_groups faulty_os 2 sample_original sample_files [[1], [2]])
     (PROCESSED_DIR, ustr ''inv-page1.pdf'') = Some (Pdf [1])"
  unfolding faulty_run by (simp add: sample_files_def sample_path_neqs ustr_def)

end
